theory Spec2Isabelle
  imports Complex_Main "HOL-Library.Sublist"
begin

section \<open>Python values\<close>

text \<open>
  The pipeline works on loosely typed JSON payloads. A value is one of Python's JSON
  types; a dictionary is kept as the list of its items, in insertion order, since
  \<^verbatim>\<open>dict.items()\<close> is order sensitive. A string is the list of its code points; the
  model covers code points below 256. A Python float is a finite double, idealised as a
  real number: the rounding of a result to the nearest double is not modelled, and the
  special values \<^verbatim>\<open>nan\<close> and \<^verbatim>\<open>inf\<close> are not values of the model. The range of a double is
  modelled where the code meets it, in the conversion of an integer to a float.
\<close>

datatype pyval =
    PNone
  | PBool bool
  | PInt int
  | PFloat real
  | PStr string
  | PList "pyval list"
  | PDict "(string \<times> pyval) list"

type_synonym pydict = "(string \<times> pyval) list"

datatype error =
    TypeError
  | ValueError
  | AttributeError
  | KeyError
  | IndexError
  | ZeroDivisionError
  | OverflowError
  | StoreError

text \<open>
  What the code reads from its surroundings: the year of \<^verbatim>\<open>datetime.now()\<close>, and the
  library functions whose behaviour is left open here. \<open>int_of_str\<close> and \<open>float_of_str\<close>
  are the parsers behind \<^verbatim>\<open>int(s)\<close> and \<^verbatim>\<open>float(s)\<close> on a string (\<open>None\<close> where they raise
  ValueError), \<open>str_of\<close> is the text an f-string gives a value that is not a string, and
  \<open>sort_other\<close> is what \<^verbatim>\<open>list.sort\<close> does when some key is not an integer.
\<close>

record env =
  current_year :: int
  int_of_str :: "string \<Rightarrow> int option"
  float_of_str :: "string \<Rightarrow> real option"
  str_of :: "pyval \<Rightarrow> string"
  sort_other :: "(pyval \<times> string) list \<Rightarrow> error + (pyval \<times> string) list"

text \<open>Truth value testing, as in \<^verbatim>\<open>if x\<close>, \<^verbatim>\<open>not x\<close> and \<^verbatim>\<open>x or y\<close>.\<close>

fun truthy :: "pyval \<Rightarrow> bool" where
  "truthy PNone = False"
| "truthy (PBool b) = b"
| "truthy (PInt n) = (n \<noteq> 0)"
| "truthy (PFloat r) = (r \<noteq> 0)"
| "truthy (PStr s) = (s \<noteq> [])"
| "truthy (PList xs) = (xs \<noteq> [])"
| "truthy (PDict d) = (d \<noteq> [])"

text \<open>\<^verbatim>\<open>x or y\<close> where evaluating \<open>y\<close> cannot raise.\<close>

definition py_or :: "pyval \<Rightarrow> pyval \<Rightarrow> pyval" where
  "py_or x y = (if truthy x then x else y)"

text \<open>Sequencing of computations that may raise.\<close>

definition thn :: "error + 'a \<Rightarrow> ('a \<Rightarrow> error + 'b) \<Rightarrow> error + 'b" where
  "thn m f = (case m of Inl e \<Rightarrow> Inl e | Inr x \<Rightarrow> f x)"

text \<open>\<^verbatim>\<open>int(x)\<close>: a float is truncated towards zero, a string is parsed.\<close>

definition py_trunc :: "real \<Rightarrow> int" where
  "py_trunc r = (if 0 \<le> r then \<lfloor>r\<rfloor> else \<lceil>r\<rceil>)"

fun py_int :: "env \<Rightarrow> pyval \<Rightarrow> error + int" where
  "py_int E PNone = Inl TypeError"
| "py_int E (PBool b) = Inr (if b then 1 else 0)"
| "py_int E (PInt n) = Inr n"
| "py_int E (PFloat r) = Inr (py_trunc r)"
| "py_int E (PStr s) = (case int_of_str E s of None \<Rightarrow> Inl ValueError | Some n \<Rightarrow> Inr n)"
| "py_int E (PList xs) = Inl TypeError"
| "py_int E (PDict d) = Inl TypeError"

text \<open>
  The integers that convert to a double. The largest double is \<open>2 ^ 1024 - 2 ^ 971\<close>; an
  integer rounds to a double when its magnitude is below \<open>2 ^ 1024 - 2 ^ 970\<close>, and the
  conversion raises OverflowError from there on.
\<close>

definition fits_double :: "int \<Rightarrow> bool" where
  "fits_double n \<longleftrightarrow> \<bar>n\<bar> < 2 ^ 1024 - 2 ^ 970"

text \<open>\<^verbatim>\<open>float(x)\<close>.\<close>

fun py_float :: "env \<Rightarrow> pyval \<Rightarrow> error + real" where
  "py_float E PNone = Inl TypeError"
| "py_float E (PBool b) = Inr (if b then 1 else 0)"
| "py_float E (PInt n) = (if fits_double n then Inr (of_int n) else Inl OverflowError)"
| "py_float E (PFloat r) = Inr r"
| "py_float E (PStr s) = (case float_of_str E s of None \<Rightarrow> Inl ValueError | Some r \<Rightarrow> Inr r)"
| "py_float E (PList xs) = Inl TypeError"
| "py_float E (PDict d) = Inl TypeError"

text \<open>
  \<^verbatim>\<open>x / n\<close> for a float \<open>x\<close> and an int \<open>n\<close>: the divisor is converted to a float first, which
  raises OverflowError when it does not fit; then a zero divisor raises ZeroDivisionError.
\<close>

definition py_truediv :: "real \<Rightarrow> int \<Rightarrow> error + real" where
  "py_truediv x n =
     (if \<not> fits_double n then Inl OverflowError
      else if n = 0 then Inl ZeroDivisionError
      else Inr (x / of_int n))"

section \<open>Impact scoring (lib/util.py)\<close>

text \<open>
  \<^verbatim>\<open>try: year = int(publication_year)  except Exception: year = None\<close>
\<close>

definition year_of :: "env \<Rightarrow> pyval \<Rightarrow> int option" where
  "year_of E publication_year =
     (case py_int E publication_year of Inl e \<Rightarrow> None | Inr n \<Rightarrow> Some n)"

text \<open>
  \<^verbatim>\<open>if year and year <= current_year: age = max(1, current_year - year + 1)  else: age = 1\<close>.
  The test \<^verbatim>\<open>year and ...\<close> is false for \<open>None\<close> and for the integer 0.
\<close>

definition age_of :: "env \<Rightarrow> int option \<Rightarrow> int" where
  "age_of E year =
     (case year of
        None \<Rightarrow> 1
      | Some y \<Rightarrow>
          if y \<noteq> 0 \<and> y \<le> current_year E then max 1 (current_year E - y + 1) else 1)"

text \<open>
  \<^verbatim>\<open>try: citations_val = float(citations)  except Exception: citations_val = 0.0\<close>.
  The division \<^verbatim>\<open>citations_val / age\<close> that follows is outside both \<^verbatim>\<open>try\<close> blocks.
\<close>

definition citations_val :: "env \<Rightarrow> pyval \<Rightarrow> real" where
  "citations_val E citations =
     (case py_float E citations of Inl e \<Rightarrow> 0 | Inr v \<Rightarrow> v)"

definition impact_score :: "env \<Rightarrow> pyval \<Rightarrow> pyval \<Rightarrow> error + real" where
  "impact_score E citations publication_year =
     (let year = year_of E publication_year;
          age = age_of E year;
          cv = citations_val E citations
      in py_truediv cv age)"

definition classify_impact :: "real \<Rightarrow> string" where
  "classify_impact score =
     (if score > 5 then ''HIGH''
      else if score > 1 then ''MODERATE''
      else ''LOW'')"

definition determine_processing_status :: "pyval \<Rightarrow> string" where
  "determine_processing_status pdf_url =
     (if truthy pdf_url then ''pending_download'' else ''no_pdf_available'')"

text \<open>The order of the three tiers, to state that a classification does not decrease.\<close>

definition tier :: "string \<Rightarrow> nat" where
  "tier c = (if c = ''HIGH'' then 2 else if c = ''MODERATE'' then 1 else 0)"

section \<open>Strings\<close>

text \<open>\<^verbatim>\<open>str.lower()\<close> on code points below 256.\<close>

definition lower_char :: "char \<Rightarrow> char" where
  "lower_char c =
     (let n = (of_char c :: nat)
      in if (65 \<le> n \<and> n \<le> 90) \<or> (192 \<le> n \<and> n \<le> 222 \<and> n \<noteq> 215)
         then char_of (n + 32) else c)"

definition lower :: "string \<Rightarrow> string" where
  "lower s = map lower_char s"

text \<open>\<^verbatim>\<open>str.strip()\<close> removes the white space at both ends.\<close>

definition is_space :: "char \<Rightarrow> bool" where
  "is_space c =
     (let n = (of_char c :: nat)
      in (9 \<le> n \<and> n \<le> 13) \<or> (28 \<le> n \<and> n \<le> 32) \<or> n = 133 \<or> n = 160)"

definition strip :: "string \<Rightarrow> string" where
  "strip s = rev (dropWhile is_space (rev (dropWhile is_space s)))"

text \<open>
  \<^verbatim>\<open>s.replace(old, new)\<close>: every occurrence of \<open>old\<close>, found from the left and not
  overlapping, becomes \<open>new\<close>.
\<close>

fun replace :: "string \<Rightarrow> string \<Rightarrow> string \<Rightarrow> string" where
  "replace old new [] = (if old = [] then new else [])"
| "replace old new (c # cs) =
     (if old = [] then new @ c # replace old new cs
      else if prefix old (c # cs) then new @ replace old new (drop (length old - 1) cs)
      else c # replace old new cs)"

text \<open>\<^verbatim>\<open>old in s\<close>.\<close>

fun contains :: "string \<Rightarrow> string \<Rightarrow> bool" where
  "contains old [] = (old = [])"
| "contains old (c # cs) = (prefix old (c # cs) \<or> contains old cs)"

section \<open>Identifier normalization (lib/util.py)\<close>

definition normalize_doi :: "pyval \<Rightarrow> error + pyval" where
  "normalize_doi doi =
     (if \<not> truthy doi then Inr PNone
      else case doi of
        PStr s \<Rightarrow>
          Inr (PStr (replace ''http://doi.org/'' [] (replace ''https://doi.org/'' [] (strip (lower s)))))
      | _ \<Rightarrow> Inl AttributeError)"

text \<open>
  A bare identifier: not empty, no white space at either end, and neither resolver prefix
  anywhere inside.
\<close>

definition bare :: "string \<Rightarrow> bool" where
  "bare s \<longleftrightarrow>
     s \<noteq> [] \<and> \<not> is_space (hd s) \<and> \<not> is_space (last s) \<and>
     \<not> contains ''https://doi.org/'' s \<and> \<not> contains ''http://doi.org/'' s"

section \<open>Access to loosely typed payloads (lib/util.py)\<close>

text \<open>\<^verbatim>\<open>d.get(key, default)\<close> on a dictionary.\<close>

definition dict_get :: "pydict \<Rightarrow> string \<Rightarrow> pyval \<Rightarrow> pyval" where
  "dict_get d key dflt = (case map_of d key of None \<Rightarrow> dflt | Some v \<Rightarrow> v)"

text \<open>\<^verbatim>\<open>x.get(key, default)\<close> on any value: only a dictionary has the method.\<close>

definition py_get :: "pyval \<Rightarrow> string \<Rightarrow> pyval \<Rightarrow> error + pyval" where
  "py_get x key dflt =
     (case x of PDict d \<Rightarrow> Inr (dict_get d key dflt) | _ \<Rightarrow> Inl AttributeError)"

text \<open>\<^verbatim>\<open>for x in v\<close>: a list gives its elements, a string its characters, a dictionary its keys.\<close>

definition py_iter :: "pyval \<Rightarrow> error + pyval list" where
  "py_iter v =
     (case v of
        PList xs \<Rightarrow> Inr xs
      | PStr s \<Rightarrow> Inr (map (\<lambda>c. PStr [c]) s)
      | PDict d \<Rightarrow> Inr (map (\<lambda>kv. PStr (fst kv)) d)
      | _ \<Rightarrow> Inl TypeError)"

text \<open>\<^verbatim>\<open>v[0]\<close>. The keys of a JSON object are strings, so \<open>0\<close> is never one of them.\<close>

definition py_first :: "pyval \<Rightarrow> error + pyval" where
  "py_first v =
     (case v of
        PList xs \<Rightarrow> (case xs of [] \<Rightarrow> Inl IndexError | y # ys \<Rightarrow> Inr y)
      | PStr s \<Rightarrow> (case s of [] \<Rightarrow> Inl IndexError | c # cs \<Rightarrow> Inr (PStr [c]))
      | PDict d \<Rightarrow> Inl KeyError
      | _ \<Rightarrow> Inl TypeError)"

text \<open>
  \<^verbatim>\<open>v[:80]\<close>. Slicing a dictionary raises (TypeError before Python 3.12, KeyError since),
  and so does slicing a number.
\<close>

definition py_slice80 :: "pyval \<Rightarrow> error + pyval" where
  "py_slice80 v =
     (case v of
        PStr s \<Rightarrow> Inr (PStr (take 80 s))
      | PList xs \<Rightarrow> Inr (PList (take 80 xs))
      | _ \<Rightarrow> Inl TypeError)"

text \<open>The text of a value inside an f-string.\<close>

definition fmt :: "env \<Rightarrow> pyval \<Rightarrow> string" where
  "fmt E v = (case v of PStr s \<Rightarrow> s | _ \<Rightarrow> str_of E v)"

text \<open>\<^verbatim>\<open>x or <expression>\<close>, where the expression is evaluated only if \<open>x\<close> is falsy.\<close>

definition or_else :: "pyval \<Rightarrow> error + pyval \<Rightarrow> error + pyval" where
  "or_else x m = (if truthy x then Inr x else m)"

text \<open>A loop that appends to a list what each element contributes, and stops at the first raise.\<close>

fun collect :: "('a \<Rightarrow> error + 'b list) \<Rightarrow> 'a list \<Rightarrow> error + 'b list" where
  "collect f [] = Inr []"
| "collect f (x # xs) = thn (f x) (\<lambda>ys. thn (collect f xs) (\<lambda>zs. Inr (ys @ zs)))"

fun safe_get :: "pyval \<Rightarrow> string list \<Rightarrow> pyval \<Rightarrow> pyval" where
  "safe_get data [] dflt = (if data \<noteq> PNone then data else dflt)"
| "safe_get data (key # keys) dflt =
     (case data of
        PDict d \<Rightarrow> safe_get (dict_get d key PNone) keys dflt
      | _ \<Rightarrow> dflt)"

subsection \<open>Authors\<close>

text \<open>The body of the loop over the authorships of the primary payload.\<close>

definition openalex_author :: "pyval \<Rightarrow> error + pyval list" where
  "openalex_author authorship =
     thn (py_get authorship ''author'' PNone) (\<lambda>a.
     let author_info = py_or a (PDict []) in
     thn (py_get author_info ''display_name'' PNone) (\<lambda>n.
     let name = py_or n (PStr []) in
     thn (py_get authorship ''institutions'' PNone) (\<lambda>i.
     let institutions = py_or i (PList []) in
     thn (if truthy institutions
          then thn (py_first institutions) (\<lambda>f. py_get f ''display_name'' PNone)
          else Inr (PStr [])) (\<lambda>affiliation.
     Inr (if truthy name
          then [PDict [(''name'', name), (''affiliation'', py_or affiliation (PStr []))]]
          else [])))))"

text \<open>The body of the loop over the authors of the Crossref payload.\<close>

definition crossref_author :: "env \<Rightarrow> pyval \<Rightarrow> error + pyval list" where
  "crossref_author E a =
     thn (py_get a ''given'' (PStr [])) (\<lambda>given.
     thn (py_get a ''family'' (PStr [])) (\<lambda>family.
     let name = strip (fmt E given @ '' '' @ fmt E family) in
     thn (py_get a ''affiliation'' PNone) (\<lambda>af.
     let affs = py_or af (PList []) in
     thn (if truthy affs
          then thn (py_first affs) (\<lambda>f. py_get f ''name'' PNone)
          else Inr (PStr [])) (\<lambda>affiliation.
     Inr (if name \<noteq> []
          then [PDict [(''name'', PStr name), (''affiliation'', py_or affiliation (PStr []))]]
          else [])))))"

definition extract_authors :: "env \<Rightarrow> pydict \<Rightarrow> pyval \<Rightarrow> error + pyval list" where
  "extract_authors E work crossref =
     thn (py_iter (py_or (dict_get work ''authorships'' PNone) (PList []))) (\<lambda>authorships.
     thn (collect openalex_author authorships) (\<lambda>authors.
     if authors = [] \<and> truthy crossref
     then thn (py_get crossref ''author'' PNone) (\<lambda>ca.
          thn (py_iter (py_or ca (PList []))) (\<lambda>cas.
          collect (crossref_author E) cas))
     else Inr authors))"

subsection \<open>Abstract reconstruction\<close>

text \<open>\<^verbatim>\<open>' '.join(ws)\<close>.\<close>

fun join_words :: "string list \<Rightarrow> string" where
  "join_words [] = []"
| "join_words [w] = w"
| "join_words (w # v # ws) = w @ '' '' @ join_words (v # ws)"

text \<open>
  \<^verbatim>\<open>words.sort(key=lambda x: x[0])\<close>. Python's sort is stable. Integer keys (a bool counts
  as 0 or 1) are ordered as integers; a list of at most one pair is not compared at all.
\<close>

definition is_int_key :: "pyval \<Rightarrow> bool" where
  "is_int_key v = (case v of PInt n \<Rightarrow> True | PBool b \<Rightarrow> True | _ \<Rightarrow> False)"

definition int_key :: "pyval \<Rightarrow> int" where
  "int_key v = (case v of PInt n \<Rightarrow> n | PBool b \<Rightarrow> (if b then 1 else 0) | _ \<Rightarrow> 0)"

definition sort_words :: "env \<Rightarrow> (pyval \<times> string) list \<Rightarrow> error + (pyval \<times> string) list" where
  "sort_words E words =
     (if length words \<le> 1 then Inr words
      else if list_all (\<lambda>pw. is_int_key (fst pw)) words
      then Inr (sort_key (\<lambda>pw. int_key (fst pw)) words)
      else sort_other E words)"

definition reconstruct_abstract :: "env \<Rightarrow> pyval \<Rightarrow> error + pyval" where
  "reconstruct_abstract E inverted_index =
     (if \<not> truthy inverted_index then Inr (PStr [])
      else case inverted_index of
        PDict items \<Rightarrow>
          thn (collect (\<lambda>wp. thn (py_iter (snd wp))
                 (\<lambda>positions. Inr (map (\<lambda>pos. (pos, fst wp)) positions))) items) (\<lambda>words.
          thn (sort_words E words) (\<lambda>sorted_words.
          Inr (PStr (join_words (map snd sorted_words)))))
      | _ \<Rightarrow> Inl AttributeError)"

text \<open>
  The reconstruction in the words of the specification: one (position, word) pair per
  occurrence, sorted ascending by position, the words joined with single spaces.
\<close>

definition occurrence_pairs :: "(string \<times> int list) list \<Rightarrow> (int \<times> string) list" where
  "occurrence_pairs idx = concat (map (\<lambda>wp. map (\<lambda>pos. (pos, fst wp)) (snd wp)) idx)"

definition spec_rebuild :: "(string \<times> int list) list \<Rightarrow> string" where
  "spec_rebuild idx = join_words (map snd (sort_key fst (occurrence_pairs idx)))"

text \<open>An inverted index with integer positions, as a payload value.\<close>

definition index_value :: "(string \<times> int list) list \<Rightarrow> pyval" where
  "index_value idx = PDict (map (\<lambda>wp. (fst wp, PList (map PInt (snd wp)))) idx)"

section \<open>The document builder (lib/util.py)\<close>

text \<open>
  \<open>build_paper_document\<close> follows the source statement by statement; \<^verbatim>\<open>a or b\<close> evaluates
  \<open>b\<close> only when \<open>a\<close> is falsy, so a raise inside \<open>b\<close> happens only then. The two secondary
  payloads are any values: \<^verbatim>\<open>None\<close> by default, empty dictionaries after a failed lookup.
\<close>

definition build_paper_document :: "env \<Rightarrow> pydict \<Rightarrow> pyval \<Rightarrow> pyval \<Rightarrow> error + pydict" where
  "build_paper_document E work crossref0 unpaywall0 =
     (let title = py_or (dict_get work ''title'' PNone) (PStr ''<no title>'');
          citations = py_or (dict_get work ''cited_by_count'' (PInt 0)) (PInt 0);
          year = dict_get work ''publication_year'' PNone
      in
      thn (normalize_doi (dict_get work ''doi'' PNone)) (\<lambda>doi.
      let openalex_id = dict_get work ''id'' PNone;
          crossref = py_or crossref0 (PDict []);
          unpaywall = py_or unpaywall0 (PDict [])
      in
      thn (extract_authors E work crossref) (\<lambda>authors.
      thn (or_else (safe_get (PDict work) [''host_venue'', ''display_name''] PNone)
          (or_else (safe_get (PDict work) [''primary_location'', ''source'', ''display_name''] PNone)
          (thn (py_get crossref ''container-title'' PNone)
               (\<lambda>ct. py_first (py_or ct (PList [PNone])))))) (\<lambda>journal_name.
      thn (or_else (safe_get (PDict work) [''host_venue'', ''issn_l''] PNone)
          (or_else (safe_get (PDict work) [''primary_location'', ''source'', ''issn_l''] PNone)
          (thn (py_get crossref ''ISSN'' PNone)
               (\<lambda>ct. py_first (py_or ct (PList [PNone])))))) (\<lambda>issn.
      thn (if truthy (dict_get work ''is_oa'' (PBool False)) then Inr True
           else thn (py_get unpaywall ''is_oa'' (PBool False)) (\<lambda>u. Inr (truthy u))) (\<lambda>is_oa.
      thn (or_else (safe_get (PDict work) [''best_oa_location'', ''url_for_pdf''] PNone)
          (or_else (safe_get (PDict work) [''primary_location'', ''pdf_url''] PNone)
          (or_else (safe_get unpaywall [''best_oa_location'', ''url_for_pdf''] PNone)
          (py_get unpaywall ''url'' PNone)))) (\<lambda>pdf_url.
      let oa_status =
            py_or (safe_get (PDict work) [''best_oa_location'', ''license''] PNone)
           (py_or (safe_get unpaywall [''best_oa_location'', ''license''] PNone)
                  (PStr []))
      in
      thn (or_else (dict_get work ''abstract'' PNone)
          (thn (reconstruct_abstract E (dict_get work ''abstract_inverted_index'' PNone)) (\<lambda>r.
           or_else r
          (thn (py_get crossref ''abstract'' PNone) (\<lambda>ca.
           Inr (py_or ca (PStr []))))))) (\<lambda>abstract.
      thn (impact_score E citations year) (\<lambda>score.
      let classification = classify_impact score;
          counts_by_year = py_or (dict_get work ''counts_by_year'' PNone) (PList [])
      in
      thn (case counts_by_year of
             PList xs \<Rightarrow>
               if xs \<noteq> []
               then thn (py_get (last xs) ''cited_by_count'' (PInt 0)) (py_int E)
               else Inr 0
           | _ \<Rightarrow> Inr 0) (\<lambda>influential.
      let processing_status = determine_processing_status pdf_url in
      thn (thn (py_iter (py_or (dict_get work ''concepts'' PNone) (PList [])))
               (collect (\<lambda>c. thn (py_get c ''display_name'' PNone)
                                  (\<lambda>d. Inr (if truthy d then [d] else []))))) (\<lambda>tags.
      thn (or_else openalex_id
          (or_else doi
          (thn (py_slice80 title) (\<lambda>t. Inr (PStr (''auto:'' @ fmt E t)))))) (\<lambda>work_id.
      thn (if truthy year then thn (py_int E year) (\<lambda>n. Inr (PInt n)) else Inr PNone) (\<lambda>year_field.
      thn (py_int E citations) (\<lambda>citation_count.
      Inr [(''_id'', work_id),
           (''title'', title),
           (''year'', year_field),
           (''authors'', PList authors),
           (''journal'', PDict [(''name'', py_or journal_name (PStr [])),
                                (''issn'', py_or issn (PStr []))]),
           (''impact'', PDict [(''citation_count'', PInt citation_count),
                               (''citations_per_year'', PFloat score),
                               (''classification'', PStr classification),
                               (''influential_citations'', PInt influential)]),
           (''open_access'', PDict [(''is_oa'', PBool is_oa),
                                    (''pdf_url'', py_or pdf_url (PStr [])),
                                    (''status'', oa_status)]),
           (''content'', PDict [(''abstract'', abstract),
                                (''full_text_extracted'', PBool False),
                                (''local_path'', PNone)]),
           (''processing_status'', PStr processing_status),
           (''tags'', PList tags)]))))))))))))))"

text \<open>Reading a field of a produced document: \<^verbatim>\<open>doc[a][b]\<close>.\<close>

definition field2 :: "pydict \<Rightarrow> string \<Rightarrow> string \<Rightarrow> pyval" where
  "field2 doc a b = safe_get (PDict doc) [a, b] PNone"

text \<open>A field of the document a run of the builder returns, if it returns one.\<close>

definition built_field :: "error + pydict \<Rightarrow> string \<Rightarrow> string \<Rightarrow> error + pyval" where
  "built_field r a b = thn r (\<lambda>doc. Inr (field2 doc a b))"

section \<open>The repository (get_papers.py)\<close>

text \<open>
  The document store is a collaborator of the pipeline (a MongoDB collection reached through
  \<^verbatim>\<open>Collection.replace_one(filter, doc, upsert=True)\<close>). It is modelled by its documented
  behaviour: the collection is a list of documents; a call either raises, or replaces the
  document that has the identifier, or inserts the new one. The result carries
  \<open>upserted_id\<close>, set only by an insertion, and \<open>modified_count\<close>, the number of stored
  documents the call changed: replacing a document by an equal one changes nothing and is
  reported with \<open>modified_count = 0\<close>. Whether a call raises is decided by a schedule of
  faults, one entry for each call (no entry: no fault).
\<close>

record update_result =
  upserted_id :: pyval
  modified_count :: int

record store =
  docs :: "pydict list"
  faults :: "bool list"

definition has_id :: "pyval \<Rightarrow> pydict \<Rightarrow> bool" where
  "has_id ident d = (map_of d ''_id'' = Some ident)"

fun replace_first :: "(pydict \<Rightarrow> bool) \<Rightarrow> pydict \<Rightarrow> pydict list \<Rightarrow> pydict list" where
  "replace_first P new [] = []"
| "replace_first P new (d # ds) = (if P d then new # ds else d # replace_first P new ds)"

definition replace_one :: "store \<Rightarrow> pyval \<Rightarrow> pydict \<Rightarrow> (error + update_result) \<times> store" where
  "replace_one s ident doc =
     (let s' = s\<lparr>faults := tl (faults s)\<rparr> in
      if faults s \<noteq> [] \<and> hd (faults s) then (Inl StoreError, s')
      else case find (has_id ident) (docs s) of
        None \<Rightarrow>
          (Inr \<lparr>upserted_id = ident, modified_count = 0\<rparr>, s'\<lparr>docs := docs s @ [doc]\<rparr>)
      | Some old \<Rightarrow>
          if old = doc then (Inr \<lparr>upserted_id = PNone, modified_count = 0\<rparr>, s')
          else (Inr \<lparr>upserted_id = PNone, modified_count = 1\<rparr>,
                s'\<lparr>docs := replace_first (has_id ident) doc (docs s)\<rparr>))"

text \<open>
  \<open>upsert_to_db\<close>, over any store: \<open>rep\<close> is the store's \<^verbatim>\<open>replace_one\<close>. Besides the two
  counters it returns, the run leaves the store in a new state and prints one line
  \<^verbatim>\<open>DB error for {_id}: {e}\<close> for each call that raised.
\<close>

record 's upsert_run =
  coll :: 's
  inserted :: int
  updated :: int
  printed :: "(pyval \<times> error) list"

definition upsert_doc ::
  "('s \<Rightarrow> pyval \<Rightarrow> pydict \<Rightarrow> (error + update_result) \<times> 's) \<Rightarrow> pydict \<Rightarrow> 's upsert_run \<Rightarrow> 's upsert_run" where
  "upsert_doc rep doc st =
     (let ident = dict_get doc ''_id'' PNone in
      if \<not> truthy ident then st
      else case rep (coll st) ident doc of
        (Inr result, c) \<Rightarrow>
          if truthy (upserted_id result) then st\<lparr>coll := c, inserted := inserted st + 1\<rparr>
          else if modified_count result \<noteq> 0 then st\<lparr>coll := c, updated := updated st + 1\<rparr>
          else st\<lparr>coll := c\<rparr>
      | (Inl e, c) \<Rightarrow> st\<lparr>coll := c, printed := printed st @ [(ident, e)]\<rparr>)"

definition upsert_to_db ::
  "('s \<Rightarrow> pyval \<Rightarrow> pydict \<Rightarrow> (error + update_result) \<times> 's) \<Rightarrow> 's \<Rightarrow> pydict list \<Rightarrow> 's upsert_run" where
  "upsert_to_db rep c papers =
     fold (upsert_doc rep) papers \<lparr>coll = c, inserted = 0, updated = 0, printed = []\<rparr>"

text \<open>The documents of a batch for which the store is called, and those whose call does not raise.\<close>

definition attempted :: "pydict list \<Rightarrow> pydict list" where
  "attempted papers = filter (\<lambda>doc. truthy (dict_get doc ''_id'' PNone)) papers"

fun survivors :: "bool list \<Rightarrow> 'a list \<Rightarrow> 'a list" where
  "survivors [] ds = ds"
| "survivors (f # fs) [] = []"
| "survivors (f # fs) (d # ds) = (if f then survivors fs ds else d # survivors fs ds)"

text \<open>The documents of a batch whose call raises.\<close>

fun casualties :: "bool list \<Rightarrow> 'a list \<Rightarrow> 'a list" where
  "casualties [] ds = []"
| "casualties (f # fs) [] = []"
| "casualties (f # fs) (d # ds) = (if f then d # casualties fs ds else casualties fs ds)"

text \<open>The pair \<^verbatim>\<open>(inserted, updated)\<close> that \<^verbatim>\<open>upsert_to_db\<close> returns to its caller.\<close>

definition report :: "'s upsert_run \<Rightarrow> int \<times> int" where
  "report r = (inserted r, updated r)"

text \<open>Two runs that leave the same documents in the store and the same counters.\<close>

definition same_outcome :: "store upsert_run \<Rightarrow> store upsert_run \<Rightarrow> bool" where
  "same_outcome r r' \<longleftrightarrow>
     docs (coll r) = docs (coll r') \<and> inserted r = inserted r' \<and> updated r = updated r'"

definition empty_store :: store where
  "empty_store = \<lparr>docs = [], faults = []\<rparr>"

section \<open>The environment and the data of the examples\<close>

text \<open>
  The examples run in the year 2026. They pass no string to \<^verbatim>\<open>int()\<close> or \<^verbatim>\<open>float()\<close> but
  plain decimal numerals and words without digits, format no value that is not a string,
  and sort integer keys only; there the instance below is what Python does. The general
  theorems hold for every environment.
\<close>

definition digit_of :: "char \<Rightarrow> nat option" where
  "digit_of c =
     (let n = (of_char c :: nat) in if 48 \<le> n \<and> n \<le> 57 then Some (n - 48) else None)"

fun decimal :: "nat \<Rightarrow> string \<Rightarrow> nat option" where
  "decimal acc [] = Some acc"
| "decimal acc (c # cs) =
     (case digit_of c of None \<Rightarrow> None | Some d \<Rightarrow> decimal (10 * acc + d) cs)"

definition numeral_of_str :: "string \<Rightarrow> int option" where
  "numeral_of_str s =
     (case s of
        [] \<Rightarrow> None
      | c # cs \<Rightarrow>
          if c = CHR ''-''
          then (if cs = [] then None else map_option (\<lambda>n. - int n) (decimal 0 cs))
          else map_option int (decimal 0 (c # cs)))"

definition env2026 :: env where
  "env2026 =
     \<lparr>current_year = 2026,
      int_of_str = numeral_of_str,
      float_of_str = (\<lambda>s. map_option real_of_int (numeral_of_str s)),
      str_of = (\<lambda>v. []),
      sort_other = (\<lambda>ws. Inl TypeError)\<rparr>"

text \<open>A primary payload with 14 citations since 2020, and the document built from it alone.\<close>

definition work_rated :: pydict where
  "work_rated =
     [(''id'', PStr ''W1''), (''cited_by_count'', PInt 14), (''publication_year'', PInt 2020)]"

definition doc_rated :: pydict where
  "doc_rated =
     [(''_id'', PStr ''W1''),
      (''title'', PStr ''<no title>''),
      (''year'', PInt 2020),
      (''authors'', PList []),
      (''journal'', PDict [(''name'', PStr []), (''issn'', PStr [])]),
      (''impact'', PDict [(''citation_count'', PInt 14),
                          (''citations_per_year'', PFloat 2),
                          (''classification'', PStr ''MODERATE''),
                          (''influential_citations'', PInt 0)]),
      (''open_access'', PDict [(''is_oa'', PBool False),
                               (''pdf_url'', PStr []),
                               (''status'', PStr [])]),
      (''content'', PDict [(''abstract'', PStr []),
                           (''full_text_extracted'', PBool False),
                           (''local_path'', PNone)]),
      (''processing_status'', PStr ''no_pdf_available''),
      (''tags'', PList [])]"

text \<open>Three records of a batch, and a later version of the first.\<close>

definition paper_a :: pydict where
  "paper_a = [(''_id'', PStr ''A''), (''title'', PStr ''a'')]"

definition paper_b :: pydict where
  "paper_b = [(''_id'', PStr ''B''), (''title'', PStr ''b'')]"

definition paper_c :: pydict where
  "paper_c = [(''_id'', PStr ''C''), (''title'', PStr ''c'')]"

definition paper_a2 :: pydict where
  "paper_a2 = [(''_id'', PStr ''A''), (''title'', PStr ''a, revised'')]"

text \<open>
  The inverted index \<^verbatim>\<open>{"We": [0], "study": [2], "soils": [1]}\<close>, a primary payload that has
  nothing else, and the document built from that payload alone.
\<close>

definition soils_index :: "(string \<times> int list) list" where
  "soils_index = [(''We'', [0]), (''study'', [2]), (''soils'', [1])]"

definition work_indexed :: pydict where
  "work_indexed = [(''abstract_inverted_index'', index_value soils_index)]"

definition doc_indexed :: pydict where
  "doc_indexed =
     [(''_id'', PStr ''auto:<no title>''),
      (''title'', PStr ''<no title>''),
      (''year'', PNone),
      (''authors'', PList []),
      (''journal'', PDict [(''name'', PStr []), (''issn'', PStr [])]),
      (''impact'', PDict [(''citation_count'', PInt 0),
                          (''citations_per_year'', PFloat 0),
                          (''classification'', PStr ''LOW''),
                          (''influential_citations'', PInt 0)]),
      (''open_access'', PDict [(''is_oa'', PBool False),
                               (''pdf_url'', PStr []),
                               (''status'', PStr [])]),
      (''content'', PDict [(''abstract'', PStr ''We soils study''),
                           (''full_text_extracted'', PBool False),
                           (''local_path'', PNone)]),
      (''processing_status'', PStr ''no_pdf_available''),
      (''tags'', PList [])]"

section \<open>Payloads of the documented shape\<close>

text \<open>
  The shape of the payloads the builder is written for. A field that is absent or falsy
  is always accepted. A field that is present has the type the catalog gives it: the DOI is
  a string; the authorships are a list of objects, whose \<open>author\<close> is an object and whose
  \<open>institutions\<close> are a list that starts with an object; the inverted index maps words to
  lists of integers; the last entry of \<open>counts_by_year\<close> is an object whose count converts
  with \<^verbatim>\<open>int()\<close>; the concepts are a list of objects; the title is a string; the year and
  the citation count convert with \<^verbatim>\<open>int()\<close>, and the year is not so far in the past that the
  age leaves the range of a float. The Crossref payload is an object whose authors are a
  list of objects with names that are strings and with such affiliations, and whose
  \<open>container-title\<close> and \<open>ISSN\<close> are lists or strings; the Unpaywall payload is an object.
\<close>

definition is_dict :: "pyval \<Rightarrow> bool" where
  "is_dict v = (case v of PDict d \<Rightarrow> True | _ \<Rightarrow> False)"

definition is_str :: "pyval \<Rightarrow> bool" where
  "is_str v = (case v of PStr s \<Rightarrow> True | _ \<Rightarrow> False)"

definition is_list :: "pyval \<Rightarrow> bool" where
  "is_list v = (case v of PList xs \<Rightarrow> True | _ \<Rightarrow> False)"

definition is_list_of :: "(pyval \<Rightarrow> bool) \<Rightarrow> pyval \<Rightarrow> bool" where
  "is_list_of P v = (case v of PList xs \<Rightarrow> list_all P xs | _ \<Rightarrow> False)"

definition dict_head :: "pyval \<Rightarrow> bool" where
  "dict_head v = (case v of PList xs \<Rightarrow> (case xs of [] \<Rightarrow> False | f # fs \<Rightarrow> is_dict f) | _ \<Rightarrow> False)"

definition falsy_or :: "(pyval \<Rightarrow> bool) \<Rightarrow> pyval \<Rightarrow> bool" where
  "falsy_or P v \<longleftrightarrow> \<not> truthy v \<or> P v"

definition field_ok :: "(pyval \<Rightarrow> bool) \<Rightarrow> string \<Rightarrow> pyval \<Rightarrow> bool" where
  "field_ok P key v = (case v of PDict d \<Rightarrow> P (dict_get d key PNone) | _ \<Rightarrow> False)"

definition int_ok :: "env \<Rightarrow> pyval \<Rightarrow> bool" where
  "int_ok E v = (case py_int E v of Inl e \<Rightarrow> False | Inr n \<Rightarrow> True)"

definition wf_authorship :: "pyval \<Rightarrow> bool" where
  "wf_authorship a \<longleftrightarrow>
     field_ok (falsy_or is_dict) ''author'' a \<and> field_ok (falsy_or dict_head) ''institutions'' a"

definition wf_crossref_author :: "pyval \<Rightarrow> bool" where
  "wf_crossref_author a \<longleftrightarrow>
     field_ok (falsy_or is_str) ''given'' a \<and> field_ok (falsy_or is_str) ''family'' a \<and>
     field_ok (falsy_or dict_head) ''affiliation'' a"

definition wf_crossref :: "pyval \<Rightarrow> bool" where
  "wf_crossref crossref \<longleftrightarrow>
     falsy_or (\<lambda>v. field_ok (falsy_or (is_list_of wf_crossref_author)) ''author'' v \<and>
                   field_ok (falsy_or (\<lambda>t. is_list t \<or> is_str t)) ''container-title'' v \<and>
                   field_ok (falsy_or (\<lambda>t. is_list t \<or> is_str t)) ''ISSN'' v) crossref"

definition wf_index :: "pyval \<Rightarrow> bool" where
  "wf_index v =
     (case v of
        PDict items \<Rightarrow> list_all (\<lambda>wp. is_list_of is_int_key (snd wp)) items
      | _ \<Rightarrow> False)"

definition wf_counts :: "env \<Rightarrow> pyval \<Rightarrow> bool" where
  "wf_counts E v =
     (case v of
        PList xs \<Rightarrow>
          xs = [] \<or>
          (case last xs of
             PDict d \<Rightarrow> int_ok E (dict_get d ''cited_by_count'' (PInt 0))
           | _ \<Rightarrow> False)
      | _ \<Rightarrow> True)"

definition wf_payload :: "env \<Rightarrow> pydict \<Rightarrow> pyval \<Rightarrow> pyval \<Rightarrow> bool" where
  "wf_payload E work crossref unpaywall \<longleftrightarrow>
     falsy_or is_str (dict_get work ''doi'' PNone) \<and>
     falsy_or (is_list_of wf_authorship) (dict_get work ''authorships'' PNone) \<and>
     wf_crossref crossref \<and>
     falsy_or is_dict unpaywall \<and>
     falsy_or wf_index (dict_get work ''abstract_inverted_index'' PNone) \<and>
     wf_counts E (dict_get work ''counts_by_year'' PNone) \<and>
     falsy_or (is_list_of is_dict) (dict_get work ''concepts'' PNone) \<and>
     falsy_or is_str (dict_get work ''title'' PNone) \<and>
     falsy_or (int_ok E) (dict_get work ''publication_year'' PNone) \<and>
     fits_double (age_of E (year_of E (dict_get work ''publication_year'' PNone))) \<and>
     falsy_or (int_ok E) (dict_get work ''cited_by_count'' (PInt 0))"

text \<open>A primary payload with most of its fields, a Crossref payload, and the document built.\<close>

definition work_full :: pydict where
  "work_full =
     [(''id'', PStr ''https://openalex.org/W7''),
      (''doi'', PStr ''https://doi.org/10.1000/Soil.7''),
      (''title'', PStr ''Soil carbon''),
      (''publication_year'', PInt 2022),
      (''cited_by_count'', PInt 60),
      (''authorships'',
         PList [PDict [(''author'', PDict [(''display_name'', PStr ''A. Rossi'')]),
                       (''institutions'', PList [PDict [(''display_name'', PStr ''ETH'')]])],
                PDict [(''author'', PDict [(''display_name'', PStr ''B. Chen'')]),
                       (''institutions'', PList [])]]),
      (''primary_location'',
         PDict [(''source'', PDict [(''display_name'', PStr ''Ecology Letters'')]),
                (''pdf_url'', PStr ''https://example.org/7.pdf'')]),
      (''is_oa'', PBool True),
      (''abstract_inverted_index'', index_value soils_index),
      (''counts_by_year'', PList [PDict [(''year'', PInt 2024), (''cited_by_count'', PInt 25)],
                                  PDict [(''year'', PInt 2023), (''cited_by_count'', PInt 35)]]),
      (''concepts'', PList [PDict [(''display_name'', PStr ''Ecology'')],
                            PDict [(''display_name'', PNone)]])]"

definition crossref_full :: pyval where
  "crossref_full =
     PDict [(''container-title'', PList [PStr ''Ecol. Lett.'']),
            (''ISSN'', PList [PStr ''1461-023X'']),
            (''abstract'', PStr ''From Crossref'')]"

text \<open>A year so far in the past that the age does not fit a float.\<close>

definition ancient_year :: int where
  "ancient_year = - (2 ^ 1024)"

definition doc_full :: pydict where
  "doc_full =
     [(''_id'', PStr ''https://openalex.org/W7''),
      (''title'', PStr ''Soil carbon''),
      (''year'', PInt 2022),
      (''authors'',
         PList [PDict [(''name'', PStr ''A. Rossi''), (''affiliation'', PStr ''ETH'')],
                PDict [(''name'', PStr ''B. Chen''), (''affiliation'', PStr [])]]),
      (''journal'', PDict [(''name'', PStr ''Ecology Letters''),
                           (''issn'', PStr ''1461-023X'')]),
      (''impact'', PDict [(''citation_count'', PInt 60),
                          (''citations_per_year'', PFloat 12),
                          (''classification'', PStr ''HIGH''),
                          (''influential_citations'', PInt 35)]),
      (''open_access'', PDict [(''is_oa'', PBool True),
                               (''pdf_url'', PStr ''https://example.org/7.pdf''),
                               (''status'', PStr [])]),
      (''content'', PDict [(''abstract'', PStr ''We soils study''),
                           (''full_text_extracted'', PBool False),
                           (''local_path'', PNone)]),
      (''processing_status'', PStr ''pending_download''),
      (''tags'', PList [PStr ''Ecology''])]"

section \<open>Basic facts\<close>

lemma thn_Inr: "thn m f = Inr y \<longleftrightarrow> (\<exists>x. m = Inr x \<and> f x = Inr y)"
  by (cases m) (simp_all add: thn_def)

lemma thn_simps [simp]: "thn (Inl e) f = Inl e" "thn (Inr x) f = f x"
  by (simp_all add: thn_def)

lemma age_of_pos: "1 \<le> age_of E yr"
  by (simp add: age_of_def split: option.splits)

text \<open>
  The age is never 0, so the division of the scorer never divides by zero; it returns
  exactly when the age fits a double.
\<close>

lemma impact_score_value:
  "impact_score E c y =
     (if fits_double (age_of E (year_of E y))
      then Inr (citations_val E c / real_of_int (age_of E (year_of E y)))
      else Inl OverflowError)"
  using age_of_pos [of E "year_of E y"]
  by (simp add: impact_score_def py_truediv_def Let_def)

lemma impact_score_Inr:
  "impact_score E c y = Inr s \<Longrightarrow>
     fits_double (age_of E (year_of E y)) \<and>
     s = citations_val E c / real_of_int (age_of E (year_of E y))"
  by (auto simp: impact_score_value split: if_splits)

lemma fits_double_small: "\<bar>n\<bar> \<le> 1000000 \<Longrightarrow> fits_double n"
  by (simp add: fits_double_def)

lemmas eval_defs = build_paper_document_def Let_def py_or_def dict_get_def normalize_doi_def
  extract_authors_def py_iter_def or_else_def py_get_def py_first_def reconstruct_abstract_def
  impact_score_value citations_val_def year_of_def age_of_def classify_impact_def
  determine_processing_status_def py_slice80_def fmt_def field2_def env2026_def
  fits_double_small

section \<open>Impact classification\<close>

text \<open>
  C2. For every real score, \<open>classify_impact\<close> returns HIGH if and only if the score is above
  5, MODERATE if and only if it is above 1 and at most 5, and LOW otherwise; a score of exactly
  5 is MODERATE and a score of exactly 1 is LOW. For a fixed publication year the
  classification does not decrease when the (coerced) citation count grows.
\<close>

theorem classify_impact_thresholds:
  "(classify_impact s = ''HIGH'' \<longleftrightarrow> s > 5) \<and>
   (classify_impact s = ''MODERATE'' \<longleftrightarrow> 1 < s \<and> s \<le> 5) \<and>
   (classify_impact s = ''LOW'' \<longleftrightarrow> s \<le> 1) \<and>
   classify_impact 5 = ''MODERATE'' \<and> classify_impact 1 = ''LOW'' \<and>
   (citations_val E c1 \<le> citations_val E c2 \<longrightarrow>
    impact_score E c1 y = Inr s1 \<longrightarrow> impact_score E c2 y = Inr s2 \<longrightarrow>
    tier (classify_impact s1) \<le> tier (classify_impact s2))"
proof -
  have mono: "s1 \<le> s2"
    if le: "citations_val E c1 \<le> citations_val E c2"
      and r1: "impact_score E c1 y = Inr s1" and r2: "impact_score E c2 y = Inr s2"
  proof -
    let ?a = "age_of E (year_of E y)"
    have pos: "0 < real_of_int ?a"
      using age_of_pos [of E "year_of E y"] by simp
    from r1 have s1: "s1 = citations_val E c1 / real_of_int ?a"
      by (simp add: impact_score_Inr)
    from r2 have s2: "s2 = citations_val E c2 / real_of_int ?a"
      by (simp add: impact_score_Inr)
    show ?thesis
      unfolding s1 s2 using le pos by (simp add: divide_right_mono)
  qed
  have tier_mono: "a \<le> b \<Longrightarrow> tier (classify_impact a) \<le> tier (classify_impact b)" for a b
    by (simp add: classify_impact_def tier_def)
  show ?thesis
    using mono tier_mono by (simp add: classify_impact_def)
qed

theorem classify_impact_thresholds_witness:
  "citations_val env2026 (PInt 100) \<le> citations_val env2026 (PInt 101) \<and>
   impact_score env2026 (PInt 100) (PInt 1927) = Inr 1 \<and>
   impact_score env2026 (PInt 101) (PInt 1927) = Inr (101 / 100) \<and>
   classify_impact 1 = ''LOW'' \<and> classify_impact (101 / 100) = ''MODERATE'' \<and>
   tier (classify_impact 1) \<le> tier (classify_impact (101 / 100))"
  using classify_impact_thresholds [of 1 env2026 "PInt 100" "PInt 101" "PInt 1927" 1 "101 / 100"]
  by (simp add: citations_val_def impact_score_value year_of_def age_of_def
      env2026_def classify_impact_def fits_double_small)

section \<open>The age used by the scorer\<close>

text \<open>
  C3, as the code has it. The age is exactly 1 when the year does not coerce to an integer
  (missing, not numeric), when it coerces to an integer above the current year, and when it
  coerces to 0, which the test \<^verbatim>\<open>if year and ...\<close> treats like a missing year. For every year
  that coerces to an integer other than 0 and not above the current year the age is
  \<open>max 1 (current_year - year + 1)\<close>. The scorer returns whenever this age fits a float, and
  whenever it returns, the rate is the coerced citation count divided by this age.
\<close>

theorem impact_score_age:
  "(fits_double (age_of E (year_of E y)) \<longrightarrow>
      impact_score E c y = Inr (citations_val E c / real_of_int (age_of E (year_of E y)))) \<and>
   (impact_score E c y = Inr s \<longrightarrow>
      s = citations_val E c / real_of_int (age_of E (year_of E y))) \<and>
   (py_int E y = Inl e \<longrightarrow> age_of E (year_of E y) = 1) \<and>
   (py_int E y = Inr n \<longrightarrow> current_year E < n \<longrightarrow> age_of E (year_of E y) = 1) \<and>
   (py_int E y = Inr n \<longrightarrow> n \<le> current_year E \<longrightarrow> n \<noteq> 0 \<longrightarrow>
      age_of E (year_of E y) = max 1 (current_year E - n + 1)) \<and>
   (py_int E y = Inr 0 \<longrightarrow> age_of E (year_of E y) = 1)"
proof -
  have "s = citations_val E c / real_of_int (age_of E (year_of E y))"
    if "impact_score E c y = Inr s"
    using impact_score_Inr [OF that] by simp
  then show ?thesis
    by (simp add: impact_score_value year_of_def age_of_def)
qed

theorem impact_score_age_witness:
  "py_int env2026 (PStr ''2020'') = Inr 2020 \<and> (2020::int) \<le> current_year env2026 \<and>
   (2020::int) \<noteq> 0 \<and>
   age_of env2026 (year_of env2026 (PStr ''2020'')) = 7 \<and>
   fits_double (age_of env2026 (year_of env2026 (PStr ''2020''))) \<and>
   impact_score env2026 (PInt 14) (PStr ''2020'') = Inr 2 \<and>
   py_int env2026 PNone = Inl TypeError \<and>
   age_of env2026 (year_of env2026 PNone) = 1"
proof -
  have a: "age_of env2026 (year_of env2026 (PStr ''2020'')) = 7"
    by (simp add: year_of_def age_of_def env2026_def numeral_of_str_def digit_of_def)
  have f: "fits_double (age_of env2026 (year_of env2026 (PStr ''2020'')))"
    unfolding a by (simp add: fits_double_small)
  from impact_score_age [of env2026 "PStr ''2020''" "PInt 14" 2 TypeError 2020]
    impact_score_age [of env2026 PNone "PInt 14" 2 TypeError 2020] a f
  show ?thesis
    by (simp add: env2026_def numeral_of_str_def digit_of_def citations_val_def
        fits_double_small)
qed

text \<open>
  The year 0 coerces to an integer that is not above the current year, and the age used is 1,
  not \<open>max 1 (2026 - 0 + 1) = 2027\<close>: ten citations give the score 10.
\<close>

theorem impact_score_year_zero:
  "py_int env2026 (PInt 0) = Inr 0 \<and> (0::int) \<le> current_year env2026 \<and>
   age_of env2026 (year_of env2026 (PInt 0)) = 1 \<and>
   max 1 (current_year env2026 - 0 + 1) = 2027 \<and>
   impact_score env2026 (PInt 10) (PInt 0) = Inr 10 \<and>
   impact_score env2026 (PInt 10) (PInt 0) \<noteq>
     Inr (10 / real_of_int (max 1 (current_year env2026 - 0 + 1)))"
  by (simp add: impact_score_value year_of_def age_of_def citations_val_def env2026_def
      fits_double_small)

section \<open>The sign of the citation rate\<close>

text \<open>
  C8, as the code has it. The scorer coerces the citation count with \<^verbatim>\<open>float()\<close>; a count that
  does not convert (malformed, or an integer beyond the range of a float) counts as 0.
  Nothing clamps the count. The scorer returns whenever the age fits a float, and whenever
  it returns, the rate is 0 for a count that does not convert, is not negative when the
  coerced count is not negative, and is not positive when the coerced count is not positive.
\<close>

theorem citations_per_year_sign:
  "(py_float E c = Inl e \<longrightarrow> citations_val E c = 0) \<and>
   (py_float E c = Inr v \<longrightarrow> citations_val E c = v) \<and>
   (fits_double (age_of E (year_of E y)) \<longrightarrow> (\<exists>r. impact_score E c y = Inr r)) \<and>
   (impact_score E c y = Inr s \<longrightarrow>
      (py_float E c = Inl e \<longrightarrow> s = 0) \<and>
      (0 \<le> citations_val E c \<longrightarrow> 0 \<le> s) \<and>
      (citations_val E c \<le> 0 \<longrightarrow> s \<le> 0))"
proof -
  have pos: "0 < real_of_int (age_of E (year_of E y))"
    using age_of_pos [of E "year_of E y"] by simp
  have "(py_float E c = Inl e \<longrightarrow> s = 0) \<and>
      (0 \<le> citations_val E c \<longrightarrow> 0 \<le> s) \<and>
      (citations_val E c \<le> 0 \<longrightarrow> s \<le> 0)"
    if "impact_score E c y = Inr s"
  proof -
    from impact_score_Inr [OF that]
    have s: "s = citations_val E c / real_of_int (age_of E (year_of E y))" by simp
    show ?thesis
      unfolding s using pos
      by (simp add: citations_val_def zero_le_divide_iff divide_le_0_iff)
  qed
  then show ?thesis
    by (simp add: impact_score_value citations_val_def)
qed

theorem citations_per_year_sign_witness:
  "py_float env2026 (PStr ''unknown'') = Inl ValueError \<and>
   citations_val env2026 (PStr ''unknown'') = 0 \<and>
   fits_double (age_of env2026 (year_of env2026 (PInt 2020))) \<and>
   impact_score env2026 (PStr ''unknown'') (PInt 2020) = Inr 0 \<and>
   py_float env2026 (PInt (2 ^ 1024)) = Inl OverflowError \<and>
   impact_score env2026 (PInt (2 ^ 1024)) (PInt 2020) = Inr 0 \<and>
   py_float env2026 (PInt 14) = Inr 14 \<and>
   impact_score env2026 (PInt 14) (PInt 2020) = Inr 2"
proof -
  have big: "\<not> fits_double (2 ^ 1024)"
    by (simp add: fits_double_def)
  have a: "age_of env2026 (year_of env2026 (PInt 2020)) = 7"
    by (simp add: year_of_def age_of_def env2026_def)
  have f: "fits_double (age_of env2026 (year_of env2026 (PInt 2020)))"
    unfolding a by (simp add: fits_double_small)
  from citations_per_year_sign [of env2026 "PStr ''unknown''" ValueError 14 "PInt 2020" 0]
    citations_per_year_sign [of env2026 "PInt 14" ValueError 14 "PInt 2020" 2] a f big
  show ?thesis
    by (simp add: impact_score_value citations_val_def env2026_def
        numeral_of_str_def digit_of_def fits_double_small)
qed

text \<open>
  A primary payload with the citation count -5 is built into a document whose stored
  \<open>citations_per_year\<close> is -5.
\<close>

theorem negative_citation_rate:
  "citations_val env2026 (PInt (- 5)) = - 5 \<and>
   built_field (build_paper_document env2026
      [(''id'', PStr ''W1''), (''cited_by_count'', PInt (- 5))] PNone PNone)
      ''impact'' ''citations_per_year'' = Inr (PFloat (- 5)) \<and>
   \<not> (0::real) \<le> - 5"
  by (simp add: eval_defs built_field_def)

section \<open>Classification and rate in a built document\<close>

text \<open>
  C9. In every document the builder returns, \<open>impact.classification\<close> is \<open>classify_impact\<close>
  applied to the stored \<open>impact.citations_per_year\<close>.
\<close>

theorem classification_consistent:
  "build_paper_document E work crossref unpaywall = Inr doc \<Longrightarrow>
   \<exists>s. field2 doc ''impact'' ''citations_per_year'' = PFloat s \<and>
       field2 doc ''impact'' ''classification'' = PStr (classify_impact s)"
  unfolding build_paper_document_def Let_def thn_Inr
  by (auto simp: field2_def dict_get_def)

theorem classification_consistent_witness:
  "build_paper_document env2026 work_rated PNone PNone = Inr doc_rated \<and>
   field2 doc_rated ''impact'' ''citations_per_year'' = PFloat 2 \<and>
   field2 doc_rated ''impact'' ''classification'' = PStr (classify_impact 2)"
proof -
  have built: "build_paper_document env2026 work_rated PNone PNone = Inr doc_rated"
    by (simp add: eval_defs work_rated_def doc_rated_def)
  from classification_consistent [OF built] show ?thesis
    using built by (simp add: field2_def dict_get_def doc_rated_def classify_impact_def)
qed

section \<open>Documents without an identifier\<close>

text \<open>
  C10. A batch document whose \<open>_id\<close> is absent or falsy is skipped by the upsert: the run is
  in the same state after it as before it (store, both counters and printed lines), so
  the batch gives the same result as the batch without that document.
\<close>

theorem upsert_skips_falsy_id:
  "\<not> truthy (dict_get doc ''_id'' PNone) \<Longrightarrow>
   upsert_doc rep doc st = st \<and>
   upsert_to_db rep c (pre @ doc # post) = upsert_to_db rep c (pre @ post)"
  by (simp add: upsert_to_db_def upsert_doc_def)

theorem upsert_skips_falsy_id_witness:
  "\<not> truthy (dict_get [(''_id'', PStr []), (''title'', PStr ''t'')] ''_id'' PNone) \<and>
   \<not> truthy (dict_get [(''title'', PStr ''t'')] ''_id'' PNone) \<and>
   upsert_to_db replace_one \<lparr>docs = [], faults = [True]\<rparr>
     [[(''_id'', PStr []), (''title'', PStr ''t'')], [(''title'', PStr ''t'')]]
   = \<lparr>coll = \<lparr>docs = [], faults = [True]\<rparr>, inserted = 0, updated = 0, printed = []\<rparr>"
  using upsert_skips_falsy_id [where doc = "[(''_id'', PStr []), (''title'', PStr ''t'')]"
      and rep = replace_one and c = "\<lparr>docs = [], faults = [True]\<rparr>" and pre = "[]"
      and post = "[[(''title'', PStr ''t'')]]"]
    upsert_skips_falsy_id [where doc = "[(''title'', PStr ''t'')]" and rep = replace_one
      and c = "\<lparr>docs = [], faults = [True]\<rparr>" and pre = "[]" and post = "[]"]
  by (simp add: dict_get_def upsert_to_db_def)

section \<open>Identifier normalization\<close>

subsection \<open>Lower case, trimming and deletion of a substring\<close>

lemma lower_char_idem: "lower_char (lower_char c) = lower_char c"
proof -
  let ?n = "of_char c :: nat"
  have lt: "?n < 256" by (rule nat_of_char_less_256)
  show ?thesis
  proof (cases "(65 \<le> ?n \<and> ?n \<le> 90) \<or> (192 \<le> ?n \<and> ?n \<le> 222 \<and> ?n \<noteq> 215)")
    case True
    then have low: "lower_char c = char_of (?n + 32)"
      by (simp add: lower_char_def Let_def)
    from True have "?n + 32 < 256" by arith
    then have m: "(of_char (char_of (?n + 32) :: char) :: nat) = ?n + 32"
      by (simp add: of_char_of)
    from True have "\<not> ((65 \<le> ?n + 32 \<and> ?n + 32 \<le> 90) \<or>
        (192 \<le> ?n + 32 \<and> ?n + 32 \<le> 222 \<and> ?n + 32 \<noteq> 215))"
      by arith
    then have "lower_char (char_of (?n + 32)) = char_of (?n + 32)"
      unfolding lower_char_def Let_def m by simp
    with low show ?thesis by simp
  next
    case False
    then have "lower_char c = c"
      unfolding lower_char_def Let_def by (rule if_not_P)
    then show ?thesis by simp
  qed
qed

lemma lower_fixed: "\<forall>c\<in>set t. lower_char c = c \<Longrightarrow> lower t = t"
  by (simp add: lower_def map_idI)

lemma set_replace_del: "set (replace old [] s) \<subseteq> set s"
proof (induction old "[] :: string" s rule: replace.induct)
  case (1 old)
  then show ?case by simp
next
  case (2 old c cs)
  have "set (drop (length old - 1) cs) \<subseteq> set cs" by (rule set_drop_subset)
  with 2 show ?case by (auto split: if_splits)
qed

lemma length_replace_del: "length (replace old [] s) \<le> length s"
proof (induction old "[] :: string" s rule: replace.induct)
  case (1 old)
  then show ?case by simp
next
  case (2 old c cs)
  have "length (drop (length old - 1) cs) \<le> length cs" by simp
  with 2 show ?case by (auto split: if_splits)
qed

lemma replace_del_fixed:
  "old \<noteq> [] \<Longrightarrow> replace old [] s = s \<longleftrightarrow> \<not> contains old s"
proof (induction s)
  case Nil
  then show ?case by simp
next
  case (Cons c cs)
  show ?case
  proof (cases "prefix old (c # cs)")
    case True
    have "length (replace old [] (drop (length old - 1) cs)) \<le> length cs"
      using length_replace_del [of old "drop (length old - 1) cs"] by simp
    then have "replace old [] (drop (length old - 1) cs) \<noteq> c # cs"
      by auto
    with True Cons.prems show ?thesis by simp
  next
    case False
    with Cons show ?thesis by simp
  qed
qed

lemma replace_del_same_length:
  "old \<noteq> [] \<Longrightarrow> length (replace old [] s) = length s \<Longrightarrow> replace old [] s = s"
proof (induction s)
  case Nil
  then show ?case by simp
next
  case (Cons c cs)
  show ?case
  proof (cases "prefix old (c # cs)")
    case True
    have "length (replace old [] (drop (length old - 1) cs)) \<le> length cs"
      using length_replace_del [of old "drop (length old - 1) cs"] by simp
    with True Cons.prems show ?thesis by simp
  next
    case False
    with Cons show ?thesis by simp
  qed
qed

lemma dropWhile_same_length: "length (dropWhile P xs) = length xs \<Longrightarrow> dropWhile P xs = xs"
proof (cases xs)
  case Nil
  then show ?thesis by simp
next
  case (Cons x ys)
  assume eq: "length (dropWhile P xs) = length xs"
  show ?thesis
  proof (cases "P x")
    case True
    have "length (dropWhile P ys) \<le> length ys" by (rule length_dropWhile_le)
    with True Cons eq show ?thesis by simp
  next
    case False
    with Cons show ?thesis by simp
  qed
qed


lemma set_strip: "set (strip s) \<subseteq> set s"
proof -
  have "set (strip s) = set (dropWhile is_space (rev (dropWhile is_space s)))"
    by (simp add: strip_def)
  also have "\<dots> \<subseteq> set (rev (dropWhile is_space s))"
    by (meson set_dropWhileD subsetI)
  also have "\<dots> \<subseteq> set s"
    using set_dropWhileD [of _ is_space s] by auto
  finally show ?thesis .
qed

lemma length_strip: "length (strip s) \<le> length s"
proof -
  have "length (strip s) = length (dropWhile is_space (rev (dropWhile is_space s)))"
    by (simp add: strip_def)
  also have "\<dots> \<le> length (rev (dropWhile is_space s))"
    by (rule length_dropWhile_le)
  also have "\<dots> \<le> length s"
    by (simp add: length_dropWhile_le)
  finally show ?thesis .
qed

lemma strip_fixed:
  "strip s = s \<longleftrightarrow> s = [] \<or> (\<not> is_space (hd s) \<and> \<not> is_space (last s))"
proof (cases "s = []")
  case True
  then show ?thesis by (simp add: strip_def)
next
  case False
  show ?thesis
  proof
    assume fixed: "strip s = s"
    have l1: "length (dropWhile is_space (rev (dropWhile is_space s))) = length s"
      using fixed by (metis length_rev strip_def)
    have l2: "length (dropWhile is_space (rev (dropWhile is_space s)))
        \<le> length (dropWhile is_space s)"
      using length_dropWhile_le [of is_space "rev (dropWhile is_space s)"] by simp
    have "length (dropWhile is_space s) = length s"
      using l1 l2 length_dropWhile_le [of is_space s] by simp
    then have d1: "dropWhile is_space s = s"
      by (rule dropWhile_same_length)
    with l1 have "dropWhile is_space (rev s) = rev s"
      by (simp add: dropWhile_same_length)
    then have "\<not> is_space (hd (rev s))"
      using False by (metis hd_dropWhile rev_is_Nil_conv)
    moreover have "\<not> is_space (hd s)"
      using False d1 by (metis hd_dropWhile)
    ultimately show "s = [] \<or> (\<not> is_space (hd s) \<and> \<not> is_space (last s))"
      using False by (simp add: hd_rev)
  next
    assume "s = [] \<or> (\<not> is_space (hd s) \<and> \<not> is_space (last s))"
    with False have h: "\<not> is_space (hd s)" and l: "\<not> is_space (last s)"
      by simp_all
    from False h have d1: "dropWhile is_space s = s"
      by (cases s) simp_all
    from False l have "dropWhile is_space (rev s) = rev s"
      by (cases "rev s") (simp_all add: hd_rev [symmetric])
    with d1 show "strip s = s"
      by (simp add: strip_def)
  qed
qed

lemma normalize_doi_str:
  "normalize_doi (PStr s) =
     (if s = [] then Inr PNone
      else Inr (PStr (replace ''http://doi.org/'' [] (replace ''https://doi.org/'' [] (strip (lower s))))))"
  by (simp add: normalize_doi_def)

lemma normalize_doi_fixed:
  assumes low: "lower t = t"
  shows "normalize_doi (PStr t) = Inr (PStr t) \<longleftrightarrow> bare t"
proof
  assume fixed: "normalize_doi (PStr t) = Inr (PStr t)"
  let ?a = "strip t"
  let ?b = "replace ''https://doi.org/'' [] ?a"
  let ?c = "replace ''http://doi.org/'' [] ?b"
  from fixed have ne: "t \<noteq> []"
    by (auto simp: normalize_doi_str split: if_splits)
  with fixed low have c: "?c = t"
    by (simp add: normalize_doi_str)
  have "length ?c \<le> length ?b" by (rule length_replace_del)
  moreover have "length ?b \<le> length ?a" by (rule length_replace_del)
  moreover have "length ?a \<le> length t" by (rule length_strip)
  ultimately have la: "length ?a = length t" and lb: "length ?b = length ?a"
    and lc: "length ?c = length ?b"
    using c by simp_all
  have "length (dropWhile is_space (rev (dropWhile is_space t))) = length t"
    using la by (simp add: strip_def)
  have a: "?a = t"
  proof -
    have l2: "length (dropWhile is_space (rev (dropWhile is_space t)))
        \<le> length (dropWhile is_space t)"
      using length_dropWhile_le [of is_space "rev (dropWhile is_space t)"] by simp
    have l1: "length (dropWhile is_space (rev (dropWhile is_space t))) = length t"
      using la by (simp add: strip_def)
    have "length (dropWhile is_space t) = length t"
      using l1 l2 length_dropWhile_le [of is_space t] by simp
    then have d1: "dropWhile is_space t = t"
      by (rule dropWhile_same_length)
    with l1 have "dropWhile is_space (rev t) = rev t"
      by (simp add: dropWhile_same_length)
    with d1 show ?thesis by (simp add: strip_def)
  qed
  from lb have b: "?b = ?a"
    by (simp add: replace_del_same_length)
  from lc have c': "?c = ?b"
    by (simp add: replace_del_same_length)
  from a ne have "\<not> is_space (hd t) \<and> \<not> is_space (last t)"
    by (simp add: strip_fixed)
  moreover from a b have b': "replace ''https://doi.org/'' [] t = t"
    by simp
  then have "\<not> contains ''https://doi.org/'' t"
    by (simp add: replace_del_fixed)
  moreover from b' a c' have "replace ''http://doi.org/'' [] t = t"
    by simp
  then have "\<not> contains ''http://doi.org/'' t"
    by (simp add: replace_del_fixed)
  ultimately show "bare t"
    using ne by (simp add: bare_def)
next
  assume "bare t"
  then have ne: "t \<noteq> []" and sp: "\<not> is_space (hd t) \<and> \<not> is_space (last t)"
    and c1: "\<not> contains ''https://doi.org/'' t" and c2: "\<not> contains ''http://doi.org/'' t"
    by (simp_all add: bare_def)
  from sp have a: "strip t = t" by (simp add: strip_fixed)
  from c1 have b: "replace ''https://doi.org/'' [] t = t" by (simp add: replace_del_fixed)
  from c2 have c: "replace ''http://doi.org/'' [] t = t" by (simp add: replace_del_fixed)
  show "normalize_doi (PStr t) = Inr (PStr t)"
    using ne low a b c by (simp add: normalize_doi_str)
qed

lemma lower_normalized:
  "lower (replace ''http://doi.org/'' [] (replace ''https://doi.org/'' [] (strip (lower x))))
   = replace ''http://doi.org/'' [] (replace ''https://doi.org/'' [] (strip (lower x)))"
proof (rule lower_fixed, rule ballI)
  fix c
  assume "c \<in> set (replace ''http://doi.org/'' [] (replace ''https://doi.org/'' [] (strip (lower x))))"
  then have "c \<in> set (lower x)"
    using set_replace_del set_strip by (meson subsetD)
  then obtain d where "c = lower_char d"
    by (auto simp: lower_def)
  then show "lower_char c = c"
    by (simp add: lower_char_idem)
qed

subsection \<open>Idempotence\<close>

text \<open>
  C5, as the code has it. An absent or empty identifier yields \<open>None\<close>, without error.
  For every identifier string \<open>x\<close> the normalizer returns a value \<open>y\<close>, and normalizing \<open>y\<close>
  again returns \<open>y\<close> exactly when \<open>y\<close> is \<open>None\<close> or a bare identifier: not empty, with no
  white space at either end and with neither resolver prefix left inside. In particular a
  lower-case bare identifier is returned unchanged.
\<close>

theorem normalize_doi_idempotent:
  "normalize_doi PNone = Inr PNone \<and> normalize_doi (PStr []) = Inr PNone \<and>
   (\<exists>y. normalize_doi (PStr x) = Inr y \<and>
        (normalize_doi y = Inr y \<longleftrightarrow> y = PNone \<or> (\<exists>s. y = PStr s \<and> bare s))) \<and>
   (bare x \<and> lower x = x \<longrightarrow> normalize_doi (PStr x) = Inr (PStr x))"
proof -
  have absent: "normalize_doi PNone = Inr PNone"
    by (simp add: normalize_doi_def)
  have twice: "\<exists>y. normalize_doi (PStr x) = Inr y \<and>
        (normalize_doi y = Inr y \<longleftrightarrow> y = PNone \<or> (\<exists>s. y = PStr s \<and> bare s))"
  proof (cases "x = []")
    case True
    then show ?thesis by (simp add: normalize_doi_str absent)
  next
    case False
    let ?t = "replace ''http://doi.org/'' [] (replace ''https://doi.org/'' [] (strip (lower x)))"
    have "normalize_doi (PStr x) = Inr (PStr ?t)"
      using False by (simp add: normalize_doi_str)
    moreover have "normalize_doi (PStr ?t) = Inr (PStr ?t) \<longleftrightarrow> bare ?t"
      by (rule normalize_doi_fixed) (rule lower_normalized)
    ultimately show ?thesis by simp
  qed
  have "normalize_doi (PStr x) = Inr (PStr x)" if "bare x" "lower x = x"
    using that by (simp add: normalize_doi_fixed)
  with absent twice show ?thesis
    by (simp add: normalize_doi_str)
qed

theorem normalize_doi_idempotent_witness:
  "normalize_doi (PStr ''HTTPS://doi.org/10.1/X'') = Inr (PStr ''10.1/x'') \<and>
   normalize_doi (PStr ''10.1/x'') = Inr (PStr ''10.1/x'') \<and>
   bare ''10.1/x'' \<and> lower ''10.1/x'' = ''10.1/x''"
proof -
  have e1: "normalize_doi (PStr ''HTTPS://doi.org/10.1/X'') = Inr (PStr ''10.1/x'')"
    by code_simp
  have e2: "bare ''10.1/x''"
    by code_simp
  have e3: "lower ''10.1/x'' = ''10.1/x''"
    by code_simp
  from normalize_doi_idempotent [of "''10.1/x''"] e1 e2 e3 show ?thesis
    by simp
qed

text \<open>
  Normalizing twice is not always normalizing once. The prefix is deleted after the trimming,
  so white space behind it survives the first pass and not the second; deleting one prefix
  can join the pieces of another; and a string that is only the prefix becomes the empty
  string, which the second pass turns into \<open>None\<close>.
\<close>

theorem normalize_doi_not_idempotent:
  "normalize_doi (PStr ''https://doi.org/ 10.1/x'') = Inr (PStr '' 10.1/x'') \<and>
   thn (normalize_doi (PStr ''https://doi.org/ 10.1/x'')) normalize_doi = Inr (PStr ''10.1/x'') \<and>
   thn (normalize_doi (PStr ''https://doi.org/ 10.1/x'')) normalize_doi
     \<noteq> normalize_doi (PStr ''https://doi.org/ 10.1/x'') \<and>
   normalize_doi (PStr ''hhttps://doi.org/ttps://doi.org/10.1/x'')
     = Inr (PStr ''https://doi.org/10.1/x'') \<and>
   thn (normalize_doi (PStr ''hhttps://doi.org/ttps://doi.org/10.1/x'')) normalize_doi
     = Inr (PStr ''10.1/x'') \<and>
   normalize_doi (PStr ''https://doi.org/'') = Inr (PStr []) \<and>
   thn (normalize_doi (PStr ''https://doi.org/'')) normalize_doi = Inr PNone"
  by code_simp

section \<open>The repository\<close>

subsection \<open>One call of the store\<close>

lemma upsert_doc_fault:
  assumes "truthy (dict_get doc ''_id'' PNone)" and "faults (coll st) = True # fs"
  shows "upsert_doc replace_one doc st =
     st\<lparr>coll := (coll st)\<lparr>faults := fs\<rparr>,
        printed := printed st @ [(dict_get doc ''_id'' PNone, StoreError)]\<rparr>"
  using assms by (simp add: upsert_doc_def replace_one_def Let_def)

lemma upsert_doc_sound:
  assumes "truthy (dict_get doc ''_id'' PNone)"
    and "faults (coll st) = [] \<or> faults (coll st) = False # fs"
    and "faults (coll st0) = []"
    and "same_outcome st st0"
  shows "same_outcome (upsert_doc replace_one doc st) (upsert_doc replace_one doc st0) \<and>
     faults (coll (upsert_doc replace_one doc st)) = tl (faults (coll st)) \<and>
     faults (coll (upsert_doc replace_one doc st0)) = [] \<and>
     printed (upsert_doc replace_one doc st) = printed st"
  using assms
  by (auto simp: upsert_doc_def replace_one_def Let_def same_outcome_def split: option.splits)

lemma fold_upsert_outcome:
  assumes "same_outcome st st0" and "faults (coll st0) = []"
  shows "same_outcome (fold (upsert_doc replace_one) papers st)
     (fold (upsert_doc replace_one) (survivors (faults (coll st)) (attempted papers)) st0)"
  using assms
proof (induction papers arbitrary: st st0)
  case Nil
  then show ?case by (cases "faults (coll st)") (simp_all add: attempted_def)
next
  case (Cons doc rest)
  let ?f = "upsert_doc replace_one"
  show ?case
  proof (cases "truthy (dict_get doc ''_id'' PNone)")
    case False
    then have "?f doc st = st" by (simp add: upsert_doc_def)
    moreover from False have "attempted (doc # rest) = attempted rest"
      by (simp add: attempted_def)
    ultimately show ?thesis using Cons by simp
  next
    case True
    then have att: "attempted (doc # rest) = doc # attempted rest"
      by (simp add: attempted_def)
    show ?thesis
    proof (cases "faults (coll st)")
      case Nil
      from upsert_doc_sound [OF True _ Cons.prems(2) Cons.prems(1), of "[]"] Nil
      have s: "same_outcome (?f doc st) (?f doc st0)" and f: "faults (coll (?f doc st)) = []"
        and f0: "faults (coll (?f doc st0)) = []"
        by simp_all
      from Cons.IH [OF s f0] f Nil att show ?thesis by simp
    next
      case (Cons b fs)
      show ?thesis
      proof (cases b)
        case True
        with Cons have fl: "faults (coll st) = True # fs" by simp
        have st': "?f doc st = st\<lparr>coll := (coll st)\<lparr>faults := fs\<rparr>,
            printed := printed st @ [(dict_get doc ''_id'' PNone, StoreError)]\<rparr>"
          using \<open>truthy (dict_get doc ''_id'' PNone)\<close> fl by (rule upsert_doc_fault)
        have s: "same_outcome (?f doc st) st0"
          using Cons.prems(1) by (simp add: st' same_outcome_def)
        have f: "faults (coll (?f doc st)) = fs" by (simp add: st')
        from Cons.IH [OF s Cons.prems(2)] f fl att show ?thesis by simp
      next
        case False
        with Cons have fl: "faults (coll st) = False # fs" by simp
        from upsert_doc_sound [OF \<open>truthy (dict_get doc ''_id'' PNone)\<close> _ Cons.prems(2) Cons.prems(1), of fs] fl
        have s: "same_outcome (?f doc st) (?f doc st0)" and f: "faults (coll (?f doc st)) = fs"
          and f0: "faults (coll (?f doc st0)) = []"
          by simp_all
        from Cons.IH [OF s f0] f fl att show ?thesis by simp
      qed
    qed
  qed
qed

lemma fold_upsert_printed:
  "printed (fold (upsert_doc replace_one) papers st) =
     printed st @ map (\<lambda>d. (dict_get d ''_id'' PNone, StoreError))
       (casualties (faults (coll st)) (attempted papers))"
proof (induction papers arbitrary: st)
  case Nil
  then show ?case by (cases "faults (coll st)") (simp_all add: attempted_def)
next
  case (Cons doc rest)
  let ?f = "upsert_doc replace_one"
  show ?case
  proof (cases "truthy (dict_get doc ''_id'' PNone)")
    case False
    then have "?f doc st = st" by (simp add: upsert_doc_def)
    moreover from False have "attempted (doc # rest) = attempted rest"
      by (simp add: attempted_def)
    ultimately show ?thesis using Cons by simp
  next
    case True
    then have att: "attempted (doc # rest) = doc # attempted rest"
      by (simp add: attempted_def)
    show ?thesis
    proof (cases "faults (coll st) \<noteq> [] \<and> hd (faults (coll st))")
      case True
      then obtain fs where fl: "faults (coll st) = True # fs"
        by (cases "faults (coll st)") auto
      have st': "?f doc st = st\<lparr>coll := (coll st)\<lparr>faults := fs\<rparr>,
          printed := printed st @ [(dict_get doc ''_id'' PNone, StoreError)]\<rparr>"
        using \<open>truthy (dict_get doc ''_id'' PNone)\<close> fl by (rule upsert_doc_fault)
      show ?thesis
        using Cons [of "?f doc st"] fl att by (simp add: st')
    next
      case False
      then have fl: "faults (coll st) = [] \<or> faults (coll st) = False # tl (faults (coll st))"
        by (cases "faults (coll st)") auto
      have p: "printed (?f doc st) = printed st"
        and f: "faults (coll (?f doc st)) = tl (faults (coll st))"
        using True False
        by (auto simp: upsert_doc_def replace_one_def Let_def split: option.splits)
      show ?thesis
        using Cons [of "?f doc st"] fl att p f
        by (cases "faults (coll st)") auto
    qed
  qed
qed

lemma run_abc:
  "upsert_to_db replace_one \<lparr>docs = [], faults = [False, True]\<rparr> [paper_a, paper_b, paper_c]
   = \<lparr>coll = \<lparr>docs = [paper_a, paper_c], faults = []\<rparr>, inserted = 2, updated = 0,
      printed = [(PStr ''B'', StoreError)]\<rparr>"
  by (simp add: upsert_to_db_def upsert_doc_def replace_one_def dict_get_def has_id_def
      paper_a_def paper_b_def paper_c_def Let_def)

lemma run_ac:
  "upsert_to_db replace_one \<lparr>docs = [], faults = []\<rparr> [paper_a, paper_c]
   = \<lparr>coll = \<lparr>docs = [paper_a, paper_c], faults = []\<rparr>, inserted = 2, updated = 0,
      printed = []\<rparr>"
  by (simp add: upsert_to_db_def upsert_doc_def replace_one_def dict_get_def has_id_def
      paper_a_def paper_b_def paper_c_def Let_def)


lemma upsert_first:
  assumes "truthy (dict_get doc ''_id'' PNone)"
  shows "upsert_to_db replace_one empty_store [doc] =
     \<lparr>coll = \<lparr>docs = [doc], faults = []\<rparr>, inserted = 1, updated = 0, printed = []\<rparr>"
  using assms
  by (simp add: upsert_to_db_def upsert_doc_def replace_one_def empty_store_def Let_def)

lemma has_own_id:
  assumes "truthy (dict_get doc ''_id'' PNone)"
  shows "has_id (dict_get doc ''_id'' PNone) doc"
  using assms by (auto simp: has_id_def dict_get_def split: option.splits)

lemma upsert_again:
  assumes "truthy (dict_get doc' ''_id'' PNone)"
    and "dict_get doc' ''_id'' PNone = dict_get doc ''_id'' PNone"
  shows "upsert_to_db replace_one \<lparr>docs = [doc], faults = []\<rparr> [doc'] =
     \<lparr>coll = \<lparr>docs = [doc'], faults = []\<rparr>, inserted = 0,
      updated = (if doc' = doc then 0 else 1), printed = []\<rparr>"
proof -
  from assms have "has_id (dict_get doc' ''_id'' PNone) doc"
    by (auto simp: has_id_def dict_get_def split: option.splits)
  with assms(1) show ?thesis
    by (simp add: upsert_to_db_def upsert_doc_def replace_one_def Let_def)
qed

subsection \<open>Upserting the same record twice\<close>

text \<open>
  C6, as the code has it. Take a canonical record (its \<open>_id\<close> is truthy) and a store that does
  not raise. Upserting the record into the empty store counts one insertion and no update.
  Upserting it again into the store this leaves counts no insertion; \<open>updated\<close> is incremented
  only if the store reports a modification, which it does when the record differs from the
  stored one and does not when the record is the same: then neither counter moves. In both
  cases the store holds exactly one document, under the identifier of the record.
\<close>

theorem upsert_twice:
  assumes "truthy (dict_get doc ''_id'' PNone)"
  shows "report (upsert_to_db replace_one empty_store [doc]) = (1, 0) \<and>
     report (upsert_to_db replace_one (coll (upsert_to_db replace_one empty_store [doc])) [doc])
       = (0, 0) \<and>
     docs (coll (upsert_to_db replace_one
       (coll (upsert_to_db replace_one empty_store [doc])) [doc])) = [doc] \<and>
     length (filter (has_id (dict_get doc ''_id'' PNone)) [doc]) = 1 \<and>
     (dict_get doc' ''_id'' PNone = dict_get doc ''_id'' PNone \<and> doc' \<noteq> doc \<longrightarrow>
        report (upsert_to_db replace_one
          (coll (upsert_to_db replace_one empty_store [doc])) [doc']) = (0, 1) \<and>
        docs (coll (upsert_to_db replace_one
          (coll (upsert_to_db replace_one empty_store [doc])) [doc'])) = [doc'])"
  using assms upsert_again [of doc doc] upsert_again [of doc' doc]
  by (simp add: upsert_first has_own_id report_def)

theorem upsert_twice_witness:
  "truthy (dict_get paper_a ''_id'' PNone) \<and>
   report (upsert_to_db replace_one empty_store [paper_a]) = (1, 0) \<and>
   report (upsert_to_db replace_one (coll (upsert_to_db replace_one empty_store [paper_a]))
     [paper_a]) = (0, 0) \<and>
   dict_get paper_a2 ''_id'' PNone = dict_get paper_a ''_id'' PNone \<and> paper_a2 \<noteq> paper_a \<and>
   report (upsert_to_db replace_one (coll (upsert_to_db replace_one empty_store [paper_a]))
     [paper_a2]) = (0, 1) \<and>
   docs (coll (upsert_to_db replace_one (coll (upsert_to_db replace_one empty_store [paper_a]))
     [paper_a2])) = [paper_a2]"
proof -
  have t: "truthy (dict_get paper_a ''_id'' PNone)"
    by (simp add: dict_get_def paper_a_def)
  have d: "dict_get paper_a2 ''_id'' PNone = dict_get paper_a ''_id'' PNone \<and> paper_a2 \<noteq> paper_a"
    by (simp add: dict_get_def paper_a_def paper_a2_def)
  from upsert_twice [OF t, of paper_a2] t d show ?thesis
    by simp
qed

text \<open>
  The document built from \<open>work_rated\<close> is upserted twice: the second call is reported as
  \<open>(0, 0)\<close>, so \<open>updated\<close> is not incremented.
\<close>

theorem upsert_same_record_not_updated:
  "build_paper_document env2026 work_rated PNone PNone = Inr doc_rated \<and>
   report (upsert_to_db replace_one empty_store [doc_rated]) = (1, 0) \<and>
   report (upsert_to_db replace_one (coll (upsert_to_db replace_one empty_store [doc_rated]))
     [doc_rated]) = (0, 0) \<and>
   updated (upsert_to_db replace_one (coll (upsert_to_db replace_one empty_store [doc_rated]))
     [doc_rated]) \<noteq> 1"
proof -
  have built: "build_paper_document env2026 work_rated PNone PNone = Inr doc_rated"
    by (simp add: eval_defs work_rated_def doc_rated_def)
  have t: "truthy (dict_get doc_rated ''_id'' PNone)"
    by (simp add: dict_get_def doc_rated_def)
  from built t upsert_again [of doc_rated doc_rated] show ?thesis
    by (simp add: upsert_first report_def)
qed

subsection \<open>A failing call does not stop the batch\<close>

text \<open>
  C7, as the code has it. Whatever calls of the store raise, the run goes through the whole
  batch: it leaves the documents and the two counters that a run without faults leaves on the
  batch without the records whose call raised, and it prints one line for each of those
  records. What it returns is the pair of \<open>inserted\<close> and \<open>updated\<close>; there is no count of failures.
\<close>

theorem upsert_failure_isolated:
  "same_outcome (upsert_to_db replace_one \<lparr>docs = c, faults = fs\<rparr> papers)
     (upsert_to_db replace_one \<lparr>docs = c, faults = []\<rparr> (survivors fs (attempted papers))) \<and>
   printed (upsert_to_db replace_one \<lparr>docs = c, faults = fs\<rparr> papers) =
     map (\<lambda>d. (dict_get d ''_id'' PNone, StoreError)) (casualties fs (attempted papers)) \<and>
   printed (upsert_to_db replace_one \<lparr>docs = c, faults = []\<rparr> (survivors fs (attempted papers))) = []"
proof -
  let ?s = "\<lparr>coll = \<lparr>docs = c, faults = fs\<rparr>, inserted = 0, updated = 0, printed = []\<rparr>"
  let ?t = "\<lparr>coll = \<lparr>docs = c, faults = []\<rparr>, inserted = 0, updated = 0, printed = []\<rparr>"
  have "same_outcome ?s ?t" by (simp add: same_outcome_def)
  from fold_upsert_outcome [where st = ?s and ?st0.0 = ?t and papers = papers, OF this]
  have 1: "same_outcome (upsert_to_db replace_one \<lparr>docs = c, faults = fs\<rparr> papers)
     (upsert_to_db replace_one \<lparr>docs = c, faults = []\<rparr> (survivors fs (attempted papers)))"
    by (simp add: upsert_to_db_def)
  have 2: "printed (upsert_to_db replace_one \<lparr>docs = c, faults = fs\<rparr> papers) =
     map (\<lambda>d. (dict_get d ''_id'' PNone, StoreError)) (casualties fs (attempted papers))"
    using fold_upsert_printed [of papers ?s] by (simp add: upsert_to_db_def)
  have 3: "printed (upsert_to_db replace_one \<lparr>docs = c, faults = []\<rparr> (survivors fs (attempted papers))) = []"
    using fold_upsert_printed [of "survivors fs (attempted papers)" ?t]
    by (simp add: upsert_to_db_def)
  from 1 2 3 show ?thesis by simp
qed

theorem upsert_failure_isolated_witness:
  "upsert_to_db replace_one \<lparr>docs = [], faults = [False, True]\<rparr> [paper_a, paper_b, paper_c]
     = \<lparr>coll = \<lparr>docs = [paper_a, paper_c], faults = []\<rparr>, inserted = 2, updated = 0,
        printed = [(PStr ''B'', StoreError)]\<rparr> \<and>
   survivors [False, True] (attempted [paper_a, paper_b, paper_c]) = [paper_a, paper_c] \<and>
   casualties [False, True] (attempted [paper_a, paper_b, paper_c]) = [paper_b] \<and>
   same_outcome
     (upsert_to_db replace_one \<lparr>docs = [], faults = [False, True]\<rparr> [paper_a, paper_b, paper_c])
     (upsert_to_db replace_one \<lparr>docs = [], faults = []\<rparr> [paper_a, paper_c])"
proof -
  have s: "survivors [False, True] (attempted [paper_a, paper_b, paper_c]) = [paper_a, paper_c]"
    by (simp add: attempted_def dict_get_def paper_a_def paper_b_def paper_c_def)
  have c: "casualties [False, True] (attempted [paper_a, paper_b, paper_c]) = [paper_b]"
    by (simp add: attempted_def dict_get_def paper_a_def paper_b_def paper_c_def)
  from upsert_failure_isolated [of "[]" "[False, True]" "[paper_a, paper_b, paper_c]"]
  show ?thesis
    unfolding s c by (simp add: run_abc run_ac same_outcome_def)
qed

text \<open>
  A batch of three with a failure on the second record and a batch of the two other records
  without failure return the same report, \<open>(2, 0)\<close>: the report does not tell one failure from
  none. Only the printed line does.
\<close>

theorem report_has_no_failed_count:
  "report (upsert_to_db replace_one \<lparr>docs = [], faults = [False, True]\<rparr>
      [paper_a, paper_b, paper_c]) = (2, 0) \<and>
   report (upsert_to_db replace_one \<lparr>docs = [], faults = []\<rparr> [paper_a, paper_c]) = (2, 0) \<and>
   length (printed (upsert_to_db replace_one \<lparr>docs = [], faults = [False, True]\<rparr>
      [paper_a, paper_b, paper_c])) = 1 \<and>
   length (printed (upsert_to_db replace_one \<lparr>docs = [], faults = []\<rparr> [paper_a, paper_c])) = 0"
  by (simp add: run_abc run_ac report_def)

section \<open>Abstract reconstruction\<close>

lemma insort_key_map:
  "insort_key f (g x) (map g xs) = map g (insort_key (\<lambda>y. f (g y)) x xs)"
  by (induction xs) simp_all

lemma sort_key_map: "sort_key f (map g xs) = map g (sort_key (\<lambda>y. f (g y)) xs)"
  by (induction xs) (simp_all add: insort_key_map)

lemma sort_key_short: "length xs \<le> 1 \<Longrightarrow> sort_key f xs = xs"
  by (cases xs) (auto simp: Suc_le_eq)

lemma collect_positions:
  "collect (\<lambda>wp. thn (py_iter (snd wp)) (\<lambda>positions. Inr (map (\<lambda>pos. (pos, fst wp)) positions)))
     (map (\<lambda>wp. (fst wp, PList (map PInt (snd wp)))) idx)
   = Inr (map (\<lambda>pw. (PInt (fst pw), snd pw)) (occurrence_pairs idx))"
  by (induction idx) (simp_all add: occurrence_pairs_def py_iter_def comp_def)

lemma sort_words_int:
  "sort_words E (map (\<lambda>pw. (PInt (fst pw), snd pw)) ps)
   = Inr (map (\<lambda>pw. (PInt (fst pw), snd pw)) (sort_key fst ps))"
proof (cases "length ps \<le> 1")
  case True
  then show ?thesis by (simp add: sort_words_def sort_key_short)
next
  case False
  have "list_all (\<lambda>pw. is_int_key (fst pw)) (map (\<lambda>pw. (PInt (fst pw), snd pw)) ps)"
    by (simp add: list_all_iff is_int_key_def)
  with False show ?thesis
    by (simp add: sort_words_def sort_key_map int_key_def)
qed

lemma reconstruct_abstract_index:
  "reconstruct_abstract E (index_value idx) = Inr (PStr (spec_rebuild idx))"
proof (cases "idx = []")
  case True
  then show ?thesis
    by (simp add: reconstruct_abstract_def index_value_def spec_rebuild_def occurrence_pairs_def)
next
  case False
  then show ?thesis
    by (simp add: reconstruct_abstract_def index_value_def spec_rebuild_def
        collect_positions sort_words_int comp_def)
qed

text \<open>
  C4. For an inverted index from words to lists of integer positions, \<open>_reconstruct_abstract\<close>
  returns the words of the (position, word) pairs, one pair for each occurrence, sorted
  ascending by position and joined with single spaces. When the primary payload has no plain
  abstract and has such an index, the abstract of the built document is this text; if the
  text is empty the builder goes on to the abstract of Crossref, or the empty string. The
  index of the example gives \<open>We soils study\<close>.
\<close>

theorem abstract_from_inverted_index:
  "reconstruct_abstract E (index_value idx) = Inr (PStr (spec_rebuild idx)) \<and>
   (\<not> truthy (dict_get work ''abstract'' PNone) \<longrightarrow>
    dict_get work ''abstract_inverted_index'' PNone = index_value idx \<longrightarrow>
    build_paper_document E work crossref unpaywall = Inr doc \<longrightarrow>
    (if spec_rebuild idx \<noteq> [] then field2 doc ''content'' ''abstract'' = PStr (spec_rebuild idx)
     else \<exists>ca. py_get (py_or crossref (PDict [])) ''abstract'' PNone = Inr ca \<and>
          field2 doc ''content'' ''abstract'' = py_or ca (PStr [])))"
proof -
  have "(if spec_rebuild idx \<noteq> [] then field2 doc ''content'' ''abstract'' = PStr (spec_rebuild idx)
     else \<exists>ca. py_get (py_or crossref (PDict [])) ''abstract'' PNone = Inr ca \<and>
          field2 doc ''content'' ''abstract'' = py_or ca (PStr []))"
    if a: "\<not> truthy (dict_get work ''abstract'' PNone)"
      and i: "dict_get work ''abstract_inverted_index'' PNone = index_value idx"
      and b: "build_paper_document E work crossref unpaywall = Inr doc"
  proof -
    from b obtain abstract where
      ab: "or_else (dict_get work ''abstract'' PNone)
          (thn (reconstruct_abstract E (dict_get work ''abstract_inverted_index'' PNone)) (\<lambda>r.
           or_else r
          (thn (py_get (py_or crossref (PDict [])) ''abstract'' PNone) (\<lambda>ca.
           Inr (py_or ca (PStr [])))))) = Inr abstract"
      and f: "field2 doc ''content'' ''abstract'' = abstract"
      unfolding build_paper_document_def Let_def thn_Inr
      by (auto simp: field2_def dict_get_def)
    from ab a i have "or_else (PStr (spec_rebuild idx))
          (thn (py_get (py_or crossref (PDict [])) ''abstract'' PNone) (\<lambda>ca.
           Inr (py_or ca (PStr [])))) = Inr abstract"
      by (simp add: or_else_def reconstruct_abstract_index)
    with f show ?thesis
      by (auto simp: or_else_def thn_Inr split: if_splits)
  qed
  then show ?thesis
    by (simp add: reconstruct_abstract_index)
qed

theorem abstract_from_inverted_index_witness:
  "\<not> truthy (dict_get work_indexed ''abstract'' PNone) \<and>
   dict_get work_indexed ''abstract_inverted_index'' PNone = index_value soils_index \<and>
   build_paper_document env2026 work_indexed PNone PNone = Inr doc_indexed \<and>
   spec_rebuild soils_index = ''We soils study'' \<and>
   field2 doc_indexed ''content'' ''abstract'' = PStr ''We soils study''"
proof -
  have a: "\<not> truthy (dict_get work_indexed ''abstract'' PNone)"
    by (simp add: dict_get_def work_indexed_def)
  have i: "dict_get work_indexed ''abstract_inverted_index'' PNone = index_value soils_index"
    by (simp add: dict_get_def work_indexed_def)
  have b: "build_paper_document env2026 work_indexed PNone PNone = Inr doc_indexed"
    by (simp add: eval_defs work_indexed_def doc_indexed_def index_value_def soils_index_def
        sort_words_def is_int_key_def int_key_def)
  have r: "spec_rebuild soils_index = ''We soils study''"
    by (simp add: spec_rebuild_def occurrence_pairs_def soils_index_def)
  from abstract_from_inverted_index [of env2026 soils_index work_indexed PNone PNone doc_indexed]
    a i b r
  show ?thesis by simp
qed

section \<open>Totality of field resolution and scoring\<close>

lemma is_dictE: "is_dict v \<Longrightarrow> (\<And>d. v = PDict d \<Longrightarrow> P) \<Longrightarrow> P"
  by (cases v) (simp_all add: is_dict_def)

lemma normalize_doi_total: "falsy_or is_str d \<Longrightarrow> \<exists>r. normalize_doi d = Inr r"
  by (cases d) (auto simp: normalize_doi_def falsy_or_def is_str_def)

lemma collect_total:
  "\<forall>x\<in>set xs. \<exists>ys. f x = Inr ys \<Longrightarrow> \<exists>zs. collect f xs = Inr zs"
  by (induction xs) auto

lemma or_else_total: "\<exists>v. m = Inr v \<Longrightarrow> \<exists>v. or_else x m = Inr v"
  by (auto simp: or_else_def)

lemma dict_head_first:
  "truthy v \<Longrightarrow> falsy_or dict_head v \<Longrightarrow> \<exists>d. py_first v = Inr (PDict d)"
  by (cases v) (auto simp: falsy_or_def dict_head_def py_first_def is_dict_def
      split: list.splits pyval.splits)

lemma affiliation_total:
  assumes "falsy_or dict_head i"
  shows "\<exists>a. (if truthy (py_or i (PList []))
          then thn (py_first (py_or i (PList []))) (\<lambda>f. py_get f key PNone)
          else Inr (PStr [])) = Inr a"
proof (cases "truthy i")
  case True
  with assms obtain d where "py_first i = Inr (PDict d)"
    using dict_head_first by blast
  with True show ?thesis by (simp add: py_or_def py_get_def)
next
  case False
  then show ?thesis by (simp add: py_or_def)
qed

lemma py_or_dict: "falsy_or is_dict v \<Longrightarrow> \<exists>d. py_or v (PDict []) = PDict d"
  by (cases v) (auto simp: py_or_def falsy_or_def is_dict_def)

lemma openalex_author_total:
  assumes "wf_authorship a"
  shows "\<exists>ys. openalex_author a = Inr ys"
proof -
  from assms obtain d where a: "a = PDict d"
    by (cases a) (simp_all add: wf_authorship_def field_ok_def)
  with assms have au: "falsy_or is_dict (dict_get d ''author'' PNone)"
    and ins: "falsy_or dict_head (dict_get d ''institutions'' PNone)"
    by (simp_all add: wf_authorship_def field_ok_def)
  from au obtain ai where ai: "py_or (dict_get d ''author'' PNone) (PDict []) = PDict ai"
    using py_or_dict by blast
  from affiliation_total [OF ins, of "''display_name''"] obtain af where
    af: "(if truthy (py_or (dict_get d ''institutions'' PNone) (PList []))
          then thn (py_first (py_or (dict_get d ''institutions'' PNone) (PList [])))
                 (\<lambda>f. py_get f ''display_name'' PNone)
          else Inr (PStr [])) = Inr af"
    by blast
  show ?thesis
    unfolding openalex_author_def a Let_def
    by (simp add: py_get_def ai af del: truthy.simps)
qed


lemma crossref_author_total:
  assumes "wf_crossref_author a"
  shows "\<exists>ys. crossref_author E a = Inr ys"
proof -
  from assms obtain d where a: "a = PDict d"
    by (cases a) (simp_all add: wf_crossref_author_def field_ok_def)
  with assms have "falsy_or dict_head (dict_get d ''affiliation'' PNone)"
    by (simp add: wf_crossref_author_def field_ok_def)
  from affiliation_total [OF this, of "''name''"] obtain af where
    af: "(if truthy (py_or (dict_get d ''affiliation'' PNone) (PList []))
          then thn (py_first (py_or (dict_get d ''affiliation'' PNone) (PList [])))
                 (\<lambda>f. py_get f ''name'' PNone)
          else Inr (PStr [])) = Inr af"
    by blast
  show ?thesis
    unfolding crossref_author_def a Let_def
    by (simp add: py_get_def af del: truthy.simps)
qed

lemma list_of_total:
  assumes "falsy_or (is_list_of P) v"
  shows "\<exists>xs. py_iter (py_or v (PList [])) = Inr xs \<and> list_all P xs"
  using assms
  by (cases v) (auto simp: falsy_or_def is_list_of_def py_or_def py_iter_def)

lemma wf_crossref_cases:
  assumes "wf_crossref crossref"
  obtains "py_or crossref (PDict []) = PDict []"
  | d where "py_or crossref (PDict []) = PDict d" "truthy crossref"
      "falsy_or (is_list_of wf_crossref_author) (dict_get d ''author'' PNone)"
      "falsy_or (\<lambda>t. is_list t \<or> is_str t) (dict_get d ''container-title'' PNone)"
      "falsy_or (\<lambda>t. is_list t \<or> is_str t) (dict_get d ''ISSN'' PNone)"
proof (cases "truthy crossref")
  case False
  then have "py_or crossref (PDict []) = PDict []" by (simp add: py_or_def)
  then show ?thesis by (rule that(1))
next
  case True
  with assms obtain d where "crossref = PDict d"
    by (cases crossref) (simp_all add: wf_crossref_def falsy_or_def field_ok_def)
  with True assms show ?thesis
    by (intro that(2) [of d]) (simp_all add: py_or_def wf_crossref_def falsy_or_def field_ok_def)
qed

lemma extract_authors_total:
  assumes w: "falsy_or (is_list_of wf_authorship) (dict_get work ''authorships'' PNone)"
    and c: "wf_crossref crossref"
  shows "\<exists>a. extract_authors E work (py_or crossref (PDict [])) = Inr a"
proof -
  from list_of_total [OF w] obtain xs where
    xs: "py_iter (py_or (dict_get work ''authorships'' PNone) (PList [])) = Inr xs"
    and wf: "list_all wf_authorship xs"
    by blast
  from wf have "\<forall>x\<in>set xs. \<exists>ys. openalex_author x = Inr ys"
    by (simp add: list_all_iff openalex_author_total)
  then obtain authors where au: "collect openalex_author xs = Inr authors"
    using collect_total by blast
  show ?thesis
  proof (cases "authors = []")
    case False
    then show ?thesis by (simp add: extract_authors_def xs au)
  next
    case True
    from c show ?thesis
    proof (cases rule: wf_crossref_cases)
      case 1
      then show ?thesis by (simp add: extract_authors_def xs au)
    next
      case (2 d)
      from list_of_total [OF 2(3)] obtain cas where
        cas: "py_iter (py_or (dict_get d ''author'' PNone) (PList [])) = Inr cas"
        and wfc: "list_all wf_crossref_author cas"
        by blast
      from wfc have "\<forall>x\<in>set cas. \<exists>ys. crossref_author E x = Inr ys"
        by (simp add: list_all_iff crossref_author_total)
      then obtain zs where "collect (crossref_author E) cas = Inr zs"
        using collect_total by blast
      with 2(1) cas show ?thesis
        by (simp add: extract_authors_def xs au py_get_def)
    qed
  qed
qed

lemma first_of_total:
  assumes "falsy_or (\<lambda>t. is_list t \<or> is_str t) v"
  shows "\<exists>j. py_first (py_or v (PList [PNone])) = Inr j"
  using assms
  by (cases v) (auto simp: falsy_or_def is_list_def is_str_def py_or_def py_first_def
      split: list.splits)

lemma crossref_first_total:
  assumes "wf_crossref crossref" and "key = ''container-title'' \<or> key = ''ISSN''"
  shows "\<exists>j. thn (py_get (py_or crossref (PDict [])) key PNone)
            (\<lambda>ct. py_first (py_or ct (PList [PNone]))) = Inr j"
  using assms(1)
proof (cases rule: wf_crossref_cases)
  case 1
  then show ?thesis
    by (simp add: py_get_def dict_get_def py_or_def py_first_def)
next
  case (2 d)
  from assms(2) 2(4,5) have "falsy_or (\<lambda>t. is_list t \<or> is_str t) (dict_get d key PNone)"
    by auto
  from first_of_total [OF this] 2(1) show ?thesis
    by (simp add: py_get_def)
qed

lemma crossref_abstract_total:
  assumes "wf_crossref crossref"
  shows "\<exists>a. thn (py_get (py_or crossref (PDict [])) ''abstract'' PNone)
            (\<lambda>ca. Inr (py_or ca (PStr []))) = Inr a"
  using assms by (cases rule: wf_crossref_cases) (simp_all add: py_get_def)

lemma unpaywall_get_total:
  assumes "falsy_or is_dict unpaywall"
  shows "\<exists>u. py_get (py_or unpaywall (PDict [])) key dflt = Inr u"
proof -
  from py_or_dict [OF assms] obtain d where "py_or unpaywall (PDict []) = PDict d" ..
  then show ?thesis by (simp add: py_get_def)
qed

lemma collect_pairs:
  assumes "list_all (\<lambda>wp. is_list_of is_int_key (snd wp)) items"
  shows "\<exists>words. collect (\<lambda>wp. thn (py_iter (snd wp))
           (\<lambda>positions. Inr (map (\<lambda>pos. (pos, fst wp)) positions))) items = Inr words \<and>
         list_all (\<lambda>pw. is_int_key (fst pw)) words"
  using assms
proof (induction items)
  case Nil
  then show ?case by simp
next
  case (Cons wp items)
  then obtain words where
    w: "collect (\<lambda>wp. thn (py_iter (snd wp))
           (\<lambda>positions. Inr (map (\<lambda>pos. (pos, fst wp)) positions))) items = Inr words"
    and k: "list_all (\<lambda>pw. is_int_key (fst pw)) words"
    by auto
  from Cons.prems obtain xs where x: "snd wp = PList xs" and xk: "list_all is_int_key xs"
    by (cases "snd wp") (simp_all add: is_list_of_def)
  from w k x xk show ?case
    by (auto simp: py_iter_def list_all_iff)
qed

lemma sort_words_total:
  "list_all (\<lambda>pw. is_int_key (fst pw)) words \<Longrightarrow> \<exists>s. sort_words E words = Inr s"
  by (simp add: sort_words_def)

lemma reconstruct_abstract_total:
  assumes "falsy_or wf_index v"
  shows "\<exists>r. reconstruct_abstract E v = Inr r"
proof (cases "truthy v")
  case False
  then show ?thesis by (simp add: reconstruct_abstract_def)
next
  case True
  with assms obtain items where v: "v = PDict items"
    and i: "list_all (\<lambda>wp. is_list_of is_int_key (snd wp)) items"
    by (cases v) (simp_all add: falsy_or_def wf_index_def)
  from collect_pairs [OF i] obtain words where
    w: "collect (\<lambda>wp. thn (py_iter (snd wp))
           (\<lambda>positions. Inr (map (\<lambda>pos. (pos, fst wp)) positions))) items = Inr words"
    and k: "list_all (\<lambda>pw. is_int_key (fst pw)) words"
    by blast
  from sort_words_total [OF k] obtain s where "sort_words E words = Inr s" ..
  with True v w show ?thesis
    by (simp add: reconstruct_abstract_def)
qed

lemma counts_total:
  assumes "wf_counts E v"
  shows "\<exists>n. (case py_or v (PList []) of
             PList xs \<Rightarrow>
               if xs \<noteq> []
               then thn (py_get (last xs) ''cited_by_count'' (PInt 0)) (py_int E)
               else Inr 0
           | _ \<Rightarrow> Inr 0) = Inr n"
proof (cases v)
  case (PList xs)
  show ?thesis
  proof (cases "xs = []")
    case True
    with PList show ?thesis by (simp add: py_or_def)
  next
    case False
    with PList assms obtain d where l: "last xs = PDict d"
      and ok: "int_ok E (dict_get d ''cited_by_count'' (PInt 0))"
      by (cases "last xs") (simp_all add: wf_counts_def)
    from ok obtain n where "py_int E (dict_get d ''cited_by_count'' (PInt 0)) = Inr n"
      by (auto simp: int_ok_def split: sum.splits)
    with PList False l show ?thesis
      by (simp add: py_or_def py_get_def)
  qed
qed (simp_all add: py_or_def)

lemma tags_total:
  assumes "falsy_or (is_list_of is_dict) v"
  shows "\<exists>t. thn (py_iter (py_or v (PList [])))
               (collect (\<lambda>c. thn (py_get c ''display_name'' PNone)
                                  (\<lambda>d. Inr (if truthy d then [d] else [])))) = Inr t"
proof -
  from list_of_total [OF assms] obtain xs where
    xs: "py_iter (py_or v (PList [])) = Inr xs" and d: "list_all is_dict xs"
    by blast
  from d have "\<forall>c\<in>set xs. \<exists>ys. thn (py_get c ''display_name'' PNone)
                                  (\<lambda>d. Inr (if truthy d then [d] else [])) = Inr ys"
    by (auto simp: list_all_iff py_get_def elim!: is_dictE)
  from collect_total [OF this] xs show ?thesis
    by simp
qed

lemma work_id_total:
  assumes "falsy_or is_str t"
  shows "\<exists>w. or_else openalex_id (or_else doi
           (thn (py_slice80 (py_or t (PStr ''<no title>'')))
                (\<lambda>t. Inr (PStr (''auto:'' @ fmt E t))))) = Inr w"
proof -
  from assms have "\<exists>x. py_slice80 (py_or t (PStr ''<no title>'')) = Inr x"
    by (cases t) (auto simp: falsy_or_def is_str_def is_list_def py_or_def py_slice80_def)
  then show ?thesis
    by (auto intro!: or_else_total)
qed

lemma year_field_total:
  assumes "falsy_or (int_ok E) y"
  shows "\<exists>f. (if truthy y then thn (py_int E y) (\<lambda>n. Inr (PInt n)) else Inr PNone) = Inr f"
  using assms by (auto simp: falsy_or_def int_ok_def split: sum.splits)

lemma citation_count_total:
  assumes "falsy_or (int_ok E) c"
  shows "\<exists>n. py_int E (py_or c (PInt 0)) = Inr n"
  using assms by (auto simp: falsy_or_def int_ok_def py_or_def split: sum.splits)


lemma build_paper_document_total:
  assumes "wf_payload E work crossref unpaywall"
  shows "\<exists>doc. build_paper_document E work crossref unpaywall = Inr doc"
proof -
  let ?cr = "py_or crossref (PDict [])"
  let ?up = "py_or unpaywall (PDict [])"
  from assms have w_doi: "falsy_or is_str (dict_get work ''doi'' PNone)"
    and w_au: "falsy_or (is_list_of wf_authorship) (dict_get work ''authorships'' PNone)"
    and cr: "wf_crossref crossref"
    and up: "falsy_or is_dict unpaywall"
    and w_ix: "falsy_or wf_index (dict_get work ''abstract_inverted_index'' PNone)"
    and w_cb: "wf_counts E (dict_get work ''counts_by_year'' PNone)"
    and w_co: "falsy_or (is_list_of is_dict) (dict_get work ''concepts'' PNone)"
    and w_ti: "falsy_or is_str (dict_get work ''title'' PNone)"
    and w_ye: "falsy_or (int_ok E) (dict_get work ''publication_year'' PNone)"
    and w_ag: "fits_double (age_of E (year_of E (dict_get work ''publication_year'' PNone)))"
    and w_ci: "falsy_or (int_ok E) (dict_get work ''cited_by_count'' (PInt 0))"
    by (simp_all add: wf_payload_def)
  from normalize_doi_total [OF w_doi]
  obtain doi where doi: "normalize_doi (dict_get work ''doi'' PNone) = Inr doi" ..
  from extract_authors_total [OF w_au cr]
  obtain authors where authors: "extract_authors E work ?cr = Inr authors" ..
  have "\<exists>j. or_else (safe_get (PDict work) [''host_venue'', ''display_name''] PNone)
      (or_else (safe_get (PDict work) [''primary_location'', ''source'', ''display_name''] PNone)
      (thn (py_get ?cr ''container-title'' PNone)
           (\<lambda>ct. py_first (py_or ct (PList [PNone]))))) = Inr j"
    by (intro or_else_total crossref_first_total [OF cr]) simp
  then obtain journal_name where journal_name:
    "or_else (safe_get (PDict work) [''host_venue'', ''display_name''] PNone)
      (or_else (safe_get (PDict work) [''primary_location'', ''source'', ''display_name''] PNone)
      (thn (py_get ?cr ''container-title'' PNone)
           (\<lambda>ct. py_first (py_or ct (PList [PNone]))))) = Inr journal_name" ..
  have "\<exists>j. or_else (safe_get (PDict work) [''host_venue'', ''issn_l''] PNone)
      (or_else (safe_get (PDict work) [''primary_location'', ''source'', ''issn_l''] PNone)
      (thn (py_get ?cr ''ISSN'' PNone)
           (\<lambda>ct. py_first (py_or ct (PList [PNone]))))) = Inr j"
    by (intro or_else_total crossref_first_total [OF cr]) simp
  then obtain issn where issn:
    "or_else (safe_get (PDict work) [''host_venue'', ''issn_l''] PNone)
      (or_else (safe_get (PDict work) [''primary_location'', ''source'', ''issn_l''] PNone)
      (thn (py_get ?cr ''ISSN'' PNone)
           (\<lambda>ct. py_first (py_or ct (PList [PNone]))))) = Inr issn" ..
  from unpaywall_get_total [OF up, of "''is_oa''" "PBool False"]
  obtain u where u: "py_get ?up ''is_oa'' (PBool False) = Inr u" ..
  then have "\<exists>b. (if truthy (dict_get work ''is_oa'' (PBool False)) then Inr True
      else thn (py_get ?up ''is_oa'' (PBool False)) (\<lambda>u. Inr (truthy u))) = Inr b"
    by auto
  then obtain is_oa where is_oa:
    "(if truthy (dict_get work ''is_oa'' (PBool False)) then Inr True
      else thn (py_get ?up ''is_oa'' (PBool False)) (\<lambda>u. Inr (truthy u))) = Inr is_oa" ..
  have "\<exists>p. or_else (safe_get (PDict work) [''best_oa_location'', ''url_for_pdf''] PNone)
      (or_else (safe_get (PDict work) [''primary_location'', ''pdf_url''] PNone)
      (or_else (safe_get ?up [''best_oa_location'', ''url_for_pdf''] PNone)
      (py_get ?up ''url'' PNone))) = Inr p"
    by (intro or_else_total unpaywall_get_total [OF up])
  then obtain pdf_url where pdf_url:
    "or_else (safe_get (PDict work) [''best_oa_location'', ''url_for_pdf''] PNone)
      (or_else (safe_get (PDict work) [''primary_location'', ''pdf_url''] PNone)
      (or_else (safe_get ?up [''best_oa_location'', ''url_for_pdf''] PNone)
      (py_get ?up ''url'' PNone))) = Inr pdf_url" ..
  from reconstruct_abstract_total [OF w_ix]
  obtain r where r:
    "reconstruct_abstract E (dict_get work ''abstract_inverted_index'' PNone) = Inr r" ..
  have "\<exists>a. or_else r
      (thn (py_get ?cr ''abstract'' PNone) (\<lambda>ca. Inr (py_or ca (PStr [])))) = Inr a"
    by (intro or_else_total crossref_abstract_total [OF cr])
  then have "\<exists>a. or_else (dict_get work ''abstract'' PNone)
      (thn (reconstruct_abstract E (dict_get work ''abstract_inverted_index'' PNone)) (\<lambda>r.
       or_else r
      (thn (py_get ?cr ''abstract'' PNone) (\<lambda>ca.
       Inr (py_or ca (PStr [])))))) = Inr a"
    by (intro or_else_total) (simp add: r)
  then obtain abstract where abstract:
    "or_else (dict_get work ''abstract'' PNone)
      (thn (reconstruct_abstract E (dict_get work ''abstract_inverted_index'' PNone)) (\<lambda>r.
       or_else r
      (thn (py_get ?cr ''abstract'' PNone) (\<lambda>ca.
       Inr (py_or ca (PStr [])))))) = Inr abstract" ..
  from counts_total [OF w_cb]
  obtain influential where influential:
    "(case py_or (dict_get work ''counts_by_year'' PNone) (PList []) of
        PList xs \<Rightarrow>
          if xs \<noteq> []
          then thn (py_get (last xs) ''cited_by_count'' (PInt 0)) (py_int E)
          else Inr 0
      | _ \<Rightarrow> Inr 0) = Inr influential" ..
  from tags_total [OF w_co]
  obtain tags where tags:
    "thn (py_iter (py_or (dict_get work ''concepts'' PNone) (PList [])))
         (collect (\<lambda>c. thn (py_get c ''display_name'' PNone)
                            (\<lambda>d. Inr (if truthy d then [d] else [])))) = Inr tags" ..
  from work_id_total [OF w_ti, of "dict_get work ''id'' PNone" doi E]
  obtain work_id where work_id:
    "or_else (dict_get work ''id'' PNone) (or_else doi
       (thn (py_slice80 (py_or (dict_get work ''title'' PNone) (PStr ''<no title>'')))
            (\<lambda>t. Inr (PStr (''auto:'' @ fmt E t))))) = Inr work_id" ..
  from year_field_total [OF w_ye]
  obtain year_field where year_field:
    "(if truthy (dict_get work ''publication_year'' PNone)
      then thn (py_int E (dict_get work ''publication_year'' PNone)) (\<lambda>n. Inr (PInt n))
      else Inr PNone) = Inr year_field" ..
  from citation_count_total [OF w_ci]
  obtain citation_count where citation_count:
    "py_int E (py_or (dict_get work ''cited_by_count'' (PInt 0)) (PInt 0)) = Inr citation_count" ..
  from w_ag obtain score where score:
    "impact_score E (py_or (dict_get work ''cited_by_count'' (PInt 0)) (PInt 0))
       (dict_get work ''publication_year'' PNone) = Inr score"
    by (simp add: impact_score_value)
  show ?thesis
    unfolding build_paper_document_def Let_def
    by (simp only: doi authors journal_name issn is_oa pdf_url abstract score
        influential tags work_id year_field citation_count thn_simps) blast
qed

text \<open>
  The ages that fit a float: with the current year in the range of \<^verbatim>\<open>datetime\<close> (1 to 9999),
  every year that does not coerce, and every year from \<open>- (2 ^ 1000)\<close> on.
\<close>

lemma age_fits_double:
  assumes cy: "1 \<le> current_year E" "current_year E \<le> 9999"
    and y: "\<And>n. py_int E y = Inr n \<Longrightarrow> - (2 ^ 1000) \<le> n"
  shows "fits_double (age_of E (year_of E y))"
proof (cases "py_int E y")
  case (Inl e)
  then show ?thesis
    by (simp add: year_of_def age_of_def fits_double_def)
next
  case (Inr n)
  have p: "(2::int) ^ 1024 - 2 ^ 970 = 2 ^ 1000 * (2 ^ 24 - 1) + 2 ^ 970 * (2 ^ 30 - 1)"
    by (simp add: algebra_simps flip: power_add)
  have "(10001::int) \<le> 2 ^ 970 * (2 ^ 30 - 1)"
  proof -
    have "(1::int) \<le> 2 ^ 970" by simp
    then have "(1::int) * (2 ^ 30 - 1) \<le> 2 ^ 970 * (2 ^ 30 - 1)"
      by (rule mult_right_mono) simp
    then show ?thesis by simp
  qed
  moreover have "(2::int) ^ 1000 * 1 \<le> 2 ^ 1000 * (2 ^ 24 - 1)"
    by (rule mult_left_mono) simp_all
  ultimately have big: "(2::int) ^ 1000 + 10001 \<le> 2 ^ 1024 - 2 ^ 970"
    unfolding p by simp
  from y [OF Inr] have "- (2 ^ 1000) \<le> n" .
  with cy big Inr show ?thesis
    by (auto simp: year_of_def age_of_def fits_double_def)
qed


lemmas wf_defs = wf_payload_def falsy_or_def is_str_def is_list_def is_dict_def is_list_of_def
  dict_head_def field_ok_def int_ok_def wf_authorship_def wf_crossref_author_def wf_crossref_def
  wf_index_def wf_counts_def



end
